theory Spec2Isabelle
  imports Complex_Main "HOL-Library.Word"
begin

unbundle bit_operations_syntax

section \<open>Go values\<close>

type_synonym byte = "8 word"

text \<open>
  A Go \<open>error\<close> value is modelled by its message; \<open>nil\<close> is \<open>None\<close>.
\<close>

type_synonym error = string

subsection \<open>IEEE-754 binary64 and binary32\<close>

text \<open>
  A \<open>float64\<close> is one of the values of IEEE-754 binary64: not-a-number, an infinity
  with its sign, or a finite number \<open>(-1)^s * m * 2^e\<close> in canonical form (either
  \<open>2^52 \<le> m < 2^53\<close> and \<open>-1074 \<le> e \<le> 971\<close>, or \<open>m < 2^52\<close> and
  \<open>e = -1074\<close>, which covers the subnormal numbers and the two zeros).
  The payload of a NaN is not modelled.  A \<open>float32\<close> is its bit pattern, which is
  what \<open>math.Float32frombits\<close> takes.
\<close>

datatype float64 = NaN | Inf bool | Finite bool nat int

type_synonym float32 = "32 word"

fun float64_val :: "float64 \<Rightarrow> real option" where
  "float64_val NaN = None"
| "float64_val (Inf s) = None"
| "float64_val (Finite s m e) = Some ((if s then - 1 else 1) * real m * 2 powi e)"

fun bit_length :: "nat \<Rightarrow> nat" where
  "bit_length n = (if n = 0 then 0 else Suc (bit_length (n div 2)))"

declare bit_length.simps [simp del]

text \<open>
  \<open>round_float64 s num den\<close> is the binary64 value nearest to the rational
  \<open>(-1)^s * num / den\<close> (\<open>den > 0\<close>), ties to the even significand, as every
  IEEE-754 operation rounds its exact result: the exponent \<open>e\<close> is chosen so that the
  quotient scaled by \<open>2^-e\<close> has 53 significant bits (or \<open>e\<close> is the least exponent),
  the scaled quotient is rounded to an integer, and a result beyond the largest finite
  number becomes an infinity.
\<close>

definition round_float64 :: "bool \<Rightarrow> nat \<Rightarrow> nat \<Rightarrow> float64" where
  "round_float64 s num den =
     (if num = 0 then Finite s 0 (- 1074)
      else
        let l = int (bit_length num) - int (bit_length den);
            lg = (if (if 0 \<le> l then den * 2 ^ nat l \<le> num else den \<le> num * 2 ^ nat (- l))
                  then l else l - 1);
            e = max (- 1074) (lg - 52);
            n = num * 2 ^ nat (- e);
            d = den * 2 ^ nat e;
            q = n div d;
            r = n mod d;
            q' = (if d < 2 * r \<or> (2 * r = d \<and> odd q) then q + 1 else q);
            m = (if q' = 2 ^ 53 then 2 ^ 52 else q');
            e' = (if q' = 2 ^ 53 then e + 1 else e)
        in if 971 < e' then Inf s else Finite s m e')"

text \<open>The conversions \<open>float64(u)\<close> of an unsigned integer: exact below \<open>2^53\<close>.\<close>

definition float64_of_nat :: "nat \<Rightarrow> float64" where
  "float64_of_nat n = round_float64 False n 1"

text \<open>\<open>math.Float32frombits\<close> reinterprets the bits.\<close>

definition Float32frombits :: "32 word \<Rightarrow> float32" where
  "Float32frombits bits = bits"

text \<open>
  The conversion \<open>float64(f)\<close> of a \<open>float32\<close>: sign bit 31, biased exponent in bits
  30..23, fraction in bits 22..0; every binary32 value is a binary64 value.
\<close>

definition float64_of_float32 :: "float32 \<Rightarrow> float64" where
  "float64_of_float32 f =
     (let s = bit f 31;
          ex = unat (drop_bit 23 f AND 0xFF);
          fr = unat (f AND 0x7FFFFF)
      in if ex = 255 then (if fr = 0 then Inf s else NaN)
         else if ex = 0 then round_float64 s fr (2 ^ 149)
         else if 150 \<le> ex then round_float64 s ((2 ^ 23 + fr) * 2 ^ (ex - 150)) 1
         else round_float64 s (2 ^ 23 + fr) (2 ^ (150 - ex)))"

text \<open>The number a \<open>float32\<close> stands for (\<open>None\<close> for an infinity or a NaN).\<close>

definition float32_val :: "float32 \<Rightarrow> real option" where
  "float32_val f =
     (let s = bit f 31;
          ex = unat (drop_bit 23 f AND 0xFF);
          fr = unat (f AND 0x7FFFFF)
      in if ex = 255 then None
         else if ex = 0 then Some ((if s then - 1 else 1) * real fr * 2 powi (- 149))
         else Some ((if s then - 1 else 1) * real (2 ^ 23 + fr) * 2 powi (int ex - 150)))"

text \<open>The quotient \<open>x / y\<close> of two \<open>float64\<close>; it never faults.\<close>

fun float64_div :: "float64 \<Rightarrow> float64 \<Rightarrow> float64" where
  "float64_div NaN y = NaN"
| "float64_div x NaN = NaN"
| "float64_div (Inf s) (Inf t) = NaN"
| "float64_div (Inf s) (Finite t m e) = Inf (s \<noteq> t)"
| "float64_div (Finite s m e) (Inf t) = Finite (s \<noteq> t) 0 (- 1074)"
| "float64_div (Finite s m e) (Finite t m' e') =
     (if m' = 0 then (if m = 0 then NaN else Inf (s \<noteq> t))
      else round_float64 (s \<noteq> t) (m * 2 ^ nat (e - e')) (m' * 2 ^ nat (e' - e)))"

subsection \<open>\<open>encoding/binary\<close>: big-endian reads\<close>

text \<open>
  \<open>binary.BigEndian.Uint32(b)\<close> and \<open>Uint16(b)\<close> read the first 4 (2) bytes of the
  slice and panic with an index out of range on a shorter one; \<open>None\<close> is the panic.
\<close>

definition BigEndian_Uint32 :: "byte list \<Rightarrow> 32 word option" where
  "BigEndian_Uint32 b =
     (if length b < 4 then None
      else Some (ucast (b ! 3) OR push_bit 8 (ucast (b ! 2)) OR
                 push_bit 16 (ucast (b ! 1)) OR push_bit 24 (ucast (b ! 0))))"

definition BigEndian_Uint16 :: "byte list \<Rightarrow> 16 word option" where
  "BigEndian_Uint16 b =
     (if length b < 2 then None
      else Some (ucast (b ! 1) OR push_bit 8 (ucast (b ! 0))))"

section \<open>RTUTransform functions\<close>

text \<open>
  An \<open>RTUTransform\<close> is a Go function from bytes to \<open>float64\<close>; a run-time panic of
  the function is the result \<open>None\<close>.
\<close>

type_synonym RTUTransform = "byte list \<Rightarrow> float64 option"

definition RTU32ToFloat64 :: RTUTransform where
  "RTU32ToFloat64 b =
     (case BigEndian_Uint32 b of
        None \<Rightarrow> None
      | Some bits \<Rightarrow> Some (float64_of_float32 (Float32frombits bits)))"

definition RTU16ToFloat64 :: RTUTransform where
  "RTU16ToFloat64 b =
     (case BigEndian_Uint16 b of
        None \<Rightarrow> None
      | Some u \<Rightarrow> Some (float64_of_nat (unat u)))"

definition rtuScaledInt32ToFloat64 :: "byte list \<Rightarrow> float64 \<Rightarrow> float64 option" where
  "rtuScaledInt32ToFloat64 b scalar =
     (case BigEndian_Uint32 b of
        None \<Rightarrow> None
      | Some u \<Rightarrow> Some (float64_div (float64_of_nat (unat u)) scalar))"

definition MakeRTU32ScaledIntToFloat64 :: "float64 \<Rightarrow> RTUTransform" where
  "MakeRTU32ScaledIntToFloat64 scalar = (\<lambda>b. rtuScaledInt32ToFloat64 b scalar)"

definition rtuScaledInt16ToFloat64 :: "byte list \<Rightarrow> float64 \<Rightarrow> float64 option" where
  "rtuScaledInt16ToFloat64 b scalar =
     (case BigEndian_Uint16 b of
        None \<Rightarrow> None
      | Some u \<Rightarrow> Some (float64_div (float64_of_nat (unat u)) scalar))"

definition MakeRTU16ScaledIntToFloat64 :: "float64 \<Rightarrow> RTUTransform" where
  "MakeRTU16ScaledIntToFloat64 scalar = (\<lambda>b. rtuScaledInt16ToFloat64 b scalar)"

section \<open>Data model\<close>

text \<open>
  Modelled from the spec: the types \<open>ControlSnip\<close>, \<open>QuerySnip\<close>, \<open>Status\<close> and
  \<open>Producer\<close> are declared in files of the package that are not part of the source
  at hand.  Their fields are the ones \<open>modbus.go\<close> reads and writes.  The integer
  widths follow from their uses there: \<open>DeviceId\<close> is compared with a \<open>uint8\<close> and
  assigned to the handler's \<open>SlaveId\<close>; \<open>OpCode\<close> and \<open>ReadLen\<close> are the
  \<open>uint16\<close> address and quantity of the client's read calls.  The counters of
  \<open>Status\<close> are natural numbers, a time stamp is a reading of the clock, and a
  duration is a number of milliseconds.
\<close>

text \<open>\<open>DeviceInfo\<close> is the struct that \<open>Scan\<close> declares for its list of devices.\<close>

record DeviceInfo =
  DeviceId :: "8 word"
  MeterType :: string

datatype ControlSnipType = CONTROLSNIP_OK | CONTROLSNIP_ERROR

record ControlSnip =
  Type :: ControlSnipType
  Message :: string
  DeviceId :: "8 word"

record QuerySnip =
  DeviceId :: "8 word"
  FuncCode :: "8 word"
  OpCode :: "16 word"
  ReadLen :: "16 word"
  Value :: float64
  IEC61850 :: string
  ReadTimestamp :: nat
  Transform :: RTUTransform

record Status =
  ModbusRequests :: nat
  ModbusReconnects :: nat

record Producer =
  Probe :: "8 word \<Rightarrow> QuerySnip"
  GetMeterType :: string

definition MaxRetryCount :: nat where
  "MaxRetryCount = 5"

definition ReadInputReg :: "8 word" where
  "ReadInputReg = 4"

definition ReadHoldingReg :: "8 word" where
  "ReadHoldingReg = 3"

subsection \<open>The engine and its environment\<close>

text \<open>
  The fields of \<open>modbus.RTUClientHandler\<close> that the engine writes after its
  construction.
\<close>

record RTUClientHandler =
  SlaveId :: "8 word"
  Timeout :: nat

text \<open>
  \<open>modbus.Client\<close> is an interface of the library \<open>goburrow/modbus\<close>.  A client is
  modelled by its two read methods over a state \<open>'c\<close> of the client and of the bus
  behind it: a call takes the handler (whose slave id and timeout the library reads),
  the register address and the quantity, and returns the pair \<open>(results, err)\<close> and
  the next state.
\<close>

record 'c Client =
  ReadInputRegisters ::
    "RTUClientHandler \<Rightarrow> 16 word \<Rightarrow> 16 word \<Rightarrow> 'c \<Rightarrow> (byte list \<times> error option) \<times> 'c"
  ReadHoldingRegisters ::
    "RTUClientHandler \<Rightarrow> 16 word \<Rightarrow> 16 word \<Rightarrow> 'c \<Rightarrow> (byte list \<times> error option) \<times> 'c"

text \<open>
  The lines written by \<open>log.Printf\<close> and \<open>log.Fatalf\<close>, one constructor per format
  string, with the arguments of the call.
\<close>

datatype logline =
    Failed_to_retrieve_opcode "16 word" error
      \<comment> \<open>\<open>Failed to retrieve opcode 0x%x, error was: %s\<close>\<close>
  | Failed_to_respond "8 word" nat nat
      \<comment> \<open>\<open>Device %d failed to respond - retry attempt %d of %d\<close>\<close>
  | Starting_bus_scan
  | Device_found "8 word" string string float64
      \<comment> \<open>\<open>Device %d: %s type device found, %s: %.2f\<close>; the third argument is the
          IEC61850 key that \<open>GetIecDescription\<close> renders\<close>
  | Device_na "8 word"
      \<comment> \<open>\<open>Device %d: n/a\<close>\<close>
  | Found_active_devices nat
      \<comment> \<open>\<open>Found %d active devices:\<close>\<close>
  | Slave_address "8 word" string
      \<comment> \<open>\<open>* slave address %d: type %s\<close>\<close>
  | Scan_warning
  | Invalid_meter_operation QuerySnip
      \<comment> \<open>\<open>Invalid meter operation %v.\<close>\<close>
  | Unknown_function_code "8 word"
      \<comment> \<open>\<open>Unknown function code %d - cannot query device.\<close>\<close>

text \<open>
  The effects of the engine on its environment, in the order in which they happen:
  sleeping, a call of a read method of the client (with the handler as it is at the
  call), a line of the log, and a send on the output or on the control channel.
\<close>

datatype event =
    Sleep nat
  | Call_ReadInputRegisters RTUClientHandler "16 word" "16 word"
  | Call_ReadHoldingRegisters RTUClientHandler "16 word" "16 word"
  | Log logline
  | Send_outputStream QuerySnip
  | Send_controlStream ControlSnip

text \<open>
  The state: the fields of \<open>ModbusEngine\<close> (\<open>client\<close> holds the state of the client),
  the clock that \<open>time.Now\<close> reads and \<open>time.Sleep\<close> advances, and the trace of the
  effects so far.
\<close>

record 'c ModbusEngine =
  client :: 'c
  handler :: RTUClientHandler
  verbose :: bool
  status :: Status
  clock :: nat
  trace :: "event list"

text \<open>
  \<open>log.Fatalf\<close> writes its line and ends the process; a panic of a transform ends it
  as well.  Either way the run stops in the state reached.
\<close>

datatype abort = Fatal | Panic

type_synonym ('a, 'c) result = "(abort \<times> 'c ModbusEngine) + ('a \<times> 'c ModbusEngine)"

definition emit :: "event \<Rightarrow> 'c ModbusEngine \<Rightarrow> 'c ModbusEngine" where
  "emit e q = q\<lparr>trace := trace q @ [e]\<rparr>"

definition log_Printf :: "logline \<Rightarrow> 'c ModbusEngine \<Rightarrow> 'c ModbusEngine" where
  "log_Printf l q = emit (Log l) q"

definition log_Fatalf :: "logline \<Rightarrow> 'c ModbusEngine \<Rightarrow> ('a, 'c) result" where
  "log_Fatalf l q = Inl (Fatal, emit (Log l) q)"

definition time_Sleep :: "nat \<Rightarrow> 'c ModbusEngine \<Rightarrow> 'c ModbusEngine" where
  "time_Sleep d q = emit (Sleep d) (q\<lparr>clock := clock q + d\<rparr>)"

definition IncreaseModbusRequestCounter :: "'c ModbusEngine \<Rightarrow> 'c ModbusEngine" where
  "IncreaseModbusRequestCounter q =
     q\<lparr>status := (status q)\<lparr>ModbusRequests := ModbusRequests (status q) + 1\<rparr>\<rparr>"

definition IncreaseModbusReconnectCounter :: "'c ModbusEngine \<Rightarrow> 'c ModbusEngine" where
  "IncreaseModbusReconnectCounter q =
     q\<lparr>status := (status q)\<lparr>ModbusReconnects := ModbusReconnects (status q) + 1\<rparr>\<rparr>"

text \<open>\<open>fmt.Sprintf\<close> of \<open>%d\<close>.\<close>

fun decimal :: "nat \<Rightarrow> string" where
  "decimal n =
     (if n < 10 then [''0123456789'' ! n]
      else decimal (n div 10) @ [''0123456789'' ! (n mod 10)])"

declare decimal.simps [simp del]

section \<open>The query executor\<close>

definition query ::
  "'c Client \<Rightarrow> QuerySnip \<Rightarrow> 'c ModbusEngine \<Rightarrow> (byte list \<times> error option, 'c) result"
where
  "query cl snip q0 =
     (let q1 = IncreaseModbusRequestCounter q0;
          q2 = q1\<lparr>handler := (handler q1)\<lparr>SlaveId := DeviceId snip\<rparr>\<rparr>
      in if ReadLen snip \<le> 0 then log_Fatalf (Invalid_meter_operation snip) q2
         else
           (case
              (if FuncCode snip = ReadInputReg then
                 (let (r, c) = ReadInputRegisters cl (handler q2) (OpCode snip) (ReadLen snip)
                                 (client q2)
                  in Inr (r, emit (Call_ReadInputRegisters (handler q2) (OpCode snip)
                                     (ReadLen snip)) (q2\<lparr>client := c\<rparr>)))
               else if FuncCode snip = ReadHoldingReg then
                 (let (r, c) = ReadHoldingRegisters cl (handler q2) (OpCode snip) (ReadLen snip)
                                 (client q2)
                  in Inr (r, emit (Call_ReadHoldingRegisters (handler q2) (OpCode snip)
                                     (ReadLen snip)) (q2\<lparr>client := c\<rparr>)))
               else log_Fatalf (Unknown_function_code (FuncCode snip)) q2)
            of
              Inl a \<Rightarrow> Inl a
            | Inr ((retval, err), q3) \<Rightarrow>
                (case err of
                   None \<Rightarrow> Inr ((retval, err), q3)
                 | Some e \<Rightarrow>
                     Inr ((retval, err),
                          if verbose q3 then log_Printf (Failed_to_retrieve_opcode (OpCode snip) e) q3
                          else q3))))"

section \<open>The polling loop\<close>

text \<open>
  The retry loop of \<open>Transform\<close> for one snip, from \<open>retryCount\<close> on.  It is left either
  by the jump to \<open>PROCESS_READINGS\<close> after a success or by its condition.
\<close>

datatype loop_exit = Goto_PROCESS_READINGS | Loop_done

function retry_loop ::
  "'c Client \<Rightarrow> QuerySnip \<Rightarrow> nat \<Rightarrow> 'c ModbusEngine \<Rightarrow> (loop_exit, 'c) result"
where
  "retry_loop cl snip retryCount q =
     (if retryCount < MaxRetryCount then
        (case query cl snip q of
           Inl a \<Rightarrow> Inl a
         | Inr ((reading, err), q1) \<Rightarrow>
             (case err of
                None \<Rightarrow>
                  (case Transform snip reading of
                     None \<Rightarrow> Inl (Panic, q1)
                   | Some v \<Rightarrow>
                       (let snip1 = snip\<lparr>Value := v\<rparr>;
                            snip2 = snip1\<lparr>ReadTimestamp := clock q1\<rparr>;
                            q2 = emit (Send_outputStream snip2) q1;
                            successSnip =
                              \<lparr>Type = CONTROLSNIP_OK, Message = ''OK'',
                               ControlSnip.DeviceId = DeviceId snip2\<rparr>;
                            q3 = emit (Send_controlStream successSnip) q2
                        in Inr (Goto_PROCESS_READINGS, q3)))
              | Some e \<Rightarrow>
                  (let q2 = IncreaseModbusReconnectCounter q1;
                       q3 = log_Printf (Failed_to_respond (DeviceId snip) (retryCount + 1)
                                          MaxRetryCount) q2;
                       q4 = time_Sleep 100 q3
                   in retry_loop cl snip (retryCount + 1) q4)))
      else Inr (Loop_done, q))"
  by pat_completeness auto
termination
  by (relation "measure (\<lambda>(cl, snip, retryCount, q). MaxRetryCount - retryCount)") auto

declare retry_loop.simps [simp del]

text \<open>
  One round of the outer loop, for the snip just received: the pause after a change of
  device, the retry loop, and the error signal when the loop ran out.
\<close>

definition process_snip ::
  "'c Client \<Rightarrow> 8 word \<Rightarrow> QuerySnip \<Rightarrow> 'c ModbusEngine \<Rightarrow> (unit, 'c) result"
where
  "process_snip cl previousDeviceId snip q =
     (let q1 = (if previousDeviceId \<noteq> DeviceId snip then time_Sleep 100 q else q)
      in case retry_loop cl snip 0 q1 of
           Inl a \<Rightarrow> Inl a
         | Inr (Goto_PROCESS_READINGS, q2) \<Rightarrow> Inr ((), q2)
         | Inr (Loop_done, q2) \<Rightarrow>
             (let errorSnip =
                    \<lparr>Type = CONTROLSNIP_ERROR,
                     Message = ''Device '' @ decimal (unat (DeviceId snip)) @ '' did not respond.'',
                     ControlSnip.DeviceId = DeviceId snip\<rparr>
              in Inr ((), emit (Send_controlStream errorSnip) q2)))"

text \<open>
  The outer loop never ends: with nothing left on the input channel it blocks in the
  receive.  \<open>Transform_loop\<close> runs it on the snips the channel delivers, in their order,
  and returns the state in which the loop waits for the next one (or the abort).
\<close>

fun Transform_loop ::
  "'c Client \<Rightarrow> 8 word \<Rightarrow> QuerySnip list \<Rightarrow> 'c ModbusEngine \<Rightarrow> (unit, 'c) result"
where
  "Transform_loop cl previousDeviceId [] q = Inr ((), q)"
| "Transform_loop cl previousDeviceId (snip # inputStream) q =
     (case process_snip cl previousDeviceId snip q of
        Inl a \<Rightarrow> Inl a
      | Inr (u, q1) \<Rightarrow> Transform_loop cl (DeviceId snip) inputStream q1)"

definition ModbusEngine_Transform ::
  "'c Client \<Rightarrow> QuerySnip list \<Rightarrow> 'c ModbusEngine \<Rightarrow> (unit, 'c) result"
where
  "ModbusEngine_Transform cl inputStream q = Transform_loop cl 0 inputStream q"

section \<open>The bus scan\<close>

text \<open>The loop over the producers, for one device address.\<close>

fun probe_loop ::
  "'c Client \<Rightarrow> Producer list \<Rightarrow> 8 word \<Rightarrow> 'c ModbusEngine \<Rightarrow> (DeviceInfo option, 'c) result"
where
  "probe_loop cl [] deviceId q = Inr (None, q)"
| "probe_loop cl (producer # producers) deviceId q =
     (let snip = Probe producer deviceId
      in case query cl snip q of
           Inl a \<Rightarrow> Inl a
         | Inr ((val, err), q1) \<Rightarrow>
             (case err of
                None \<Rightarrow>
                  (case Transform snip val of
                     None \<Rightarrow> Inl (Panic, q1)
                   | Some v \<Rightarrow>
                       (let q2 = log_Printf (Device_found deviceId (GetMeterType producer)
                                               (IEC61850 snip) v) q1;
                            dev = \<lparr>DeviceInfo.DeviceId = deviceId,
                                   MeterType = GetMeterType producer\<rparr>
                        in Inr (Some dev, q2)))
              | Some e \<Rightarrow> probe_loop cl producers deviceId q1))"

text \<open>The loop labelled \<open>SCAN\<close>, from \<open>deviceId\<close> on.\<close>

function SCAN ::
  "'c Client \<Rightarrow> Producer list \<Rightarrow> 8 word \<Rightarrow> DeviceInfo list \<Rightarrow> 'c ModbusEngine \<Rightarrow>
     (DeviceInfo list, 'c) result"
where
  "SCAN cl producers deviceId deviceList q =
     (if deviceId \<le> 247 then
        (let q1 = time_Sleep 40 q
         in case probe_loop cl producers deviceId q1 of
              Inl a \<Rightarrow> Inl a
            | Inr (Some dev, q2) \<Rightarrow> SCAN cl producers (deviceId + 1) (deviceList @ [dev]) q2
            | Inr (None, q2) \<Rightarrow>
                SCAN cl producers (deviceId + 1) deviceList (log_Printf (Device_na deviceId) q2))
      else Inr (deviceList, q))"
  by pat_completeness auto
termination
proof (relation "measure (\<lambda>(cl, producers, deviceId, deviceList, q). 248 - unat deviceId)")
  show "wf (measure (\<lambda>(cl, producers, deviceId, deviceList, q). 248 - unat (deviceId :: 8 word)))"
    by simp
next
  fix cl :: "'c Client" and producers :: "Producer list" and deviceId :: "8 word"
    and deviceList :: "DeviceInfo list" and q x2 :: "'c ModbusEngine"
    and x1 :: "DeviceInfo option" and dev :: DeviceInfo
  assume le: "deviceId \<le> 247"
  then have "unat deviceId \<le> 247"
    by (simp add: word_le_nat_alt)
  then have "unat (deviceId + 1) = unat deviceId + 1"
    by (simp add: unat_word_ariths)
  with \<open>unat deviceId \<le> 247\<close>
  have less: "248 - unat (deviceId + 1) < 248 - unat deviceId"
    by simp
  show "((cl, producers, deviceId + 1, deviceList @ [dev], x2),
         (cl, producers, deviceId, deviceList, q))
        \<in> measure (\<lambda>(cl, producers, deviceId, deviceList, q). 248 - unat deviceId)"
    using less by simp
  show "((cl, producers, deviceId + 1, deviceList, log_Printf (Device_na deviceId) x2),
         (cl, producers, deviceId, deviceList, q))
        \<in> measure (\<lambda>(cl, producers, deviceId, deviceList, q). 248 - unat deviceId)"
    using less by simp
qed

declare SCAN.simps [simp del]

text \<open>
  \<open>Scan\<close>.  The source builds the list of producers from \<open>NewSDMProducer\<close>,
  \<open>NewJanitzaProducer\<close> and \<open>NewDZGProducer\<close>, which are not part of the source at
  hand: the list is a parameter.
\<close>

definition Scan :: "'c Client \<Rightarrow> Producer list \<Rightarrow> 'c ModbusEngine \<Rightarrow> (unit, 'c) result" where
  "Scan cl producers q =
     (let oldtimeout = Timeout (handler q);
          q1 = q\<lparr>handler := (handler q)\<lparr>Timeout := 50\<rparr>\<rparr>;
          q2 = log_Printf Starting_bus_scan q1
      in case SCAN cl producers 1 [] q2 of
           Inl a \<Rightarrow> Inl a
         | Inr (deviceList, q3) \<Rightarrow>
             (let q4 = q3\<lparr>handler := (handler q3)\<lparr>Timeout := oldtimeout\<rparr>\<rparr>;
                  q5 = log_Printf (Found_active_devices (length deviceList)) q4;
                  q6 = foldl (\<lambda>q device. log_Printf (Slave_address (DeviceInfo.DeviceId device)
                                                        (MeterType device)) q) q5 deviceList;
                  q7 = log_Printf Scan_warning q6
              in Inr ((), q7)))"

section \<open>Observations on a run\<close>

text \<open>The state in which a run ends, whether it aborts or not.\<close>

fun state_of :: "('a, 'c) result \<Rightarrow> 'c ModbusEngine" where
  "state_of (Inl (a, q)) = q"
| "state_of (Inr (x, q)) = q"

fun is_call :: "event \<Rightarrow> bool" where
  "is_call (Call_ReadInputRegisters h a n) = True"
| "is_call (Call_ReadHoldingRegisters h a n) = True"
| "is_call e = False"

text \<open>The calls of the client, the control snips and the completed snips of a trace.\<close>

definition calls :: "event list \<Rightarrow> event list" where
  "calls tr = filter is_call tr"

fun controls :: "event list \<Rightarrow> ControlSnip list" where
  "controls [] = []"
| "controls (Send_controlStream c # es) = c # controls es"
| "controls (e # es) = controls es"

fun outputs :: "event list \<Rightarrow> QuerySnip list" where
  "outputs [] = []"
| "outputs (Send_outputStream s # es) = s # outputs es"
| "outputs (e # es) = outputs es"

text \<open>
  A snip that passes the two checks of \<open>query\<close>, the read method its function code
  selects, and the event of that call.
\<close>

definition valid_snip :: "QuerySnip \<Rightarrow> bool" where
  "valid_snip snip =
     (0 < ReadLen snip \<and> (FuncCode snip = ReadInputReg \<or> FuncCode snip = ReadHoldingReg))"

definition client_read ::
  "'c Client \<Rightarrow> RTUClientHandler \<Rightarrow> QuerySnip \<Rightarrow> 'c \<Rightarrow> (byte list \<times> error option) \<times> 'c"
where
  "client_read cl h snip c =
     (if FuncCode snip = ReadInputReg
      then ReadInputRegisters cl h (OpCode snip) (ReadLen snip) c
      else ReadHoldingRegisters cl h (OpCode snip) (ReadLen snip) c)"

definition call_event :: "RTUClientHandler \<Rightarrow> QuerySnip \<Rightarrow> event" where
  "call_event h snip =
     (if FuncCode snip = ReadInputReg
      then Call_ReadInputRegisters h (OpCode snip) (ReadLen snip)
      else Call_ReadHoldingRegisters h (OpCode snip) (ReadLen snip))"

subsection \<open>A simulated bus\<close>

text \<open>
  A client for concrete runs: its state counts the calls made so far, and a call
  succeeds with the four bytes of the \<open>float32\<close> 3.25 when \<open>ok\<close> holds of the handler
  and the count, and fails with a timeout otherwise.
\<close>

definition sim_read ::
  "(RTUClientHandler \<Rightarrow> nat \<Rightarrow> bool) \<Rightarrow> RTUClientHandler \<Rightarrow> 16 word \<Rightarrow> 16 word \<Rightarrow> nat \<Rightarrow>
     (byte list \<times> error option) \<times> nat"
where
  "sim_read ok h a n c =
     ((if ok h c then ([0x40, 0x50, 0x00, 0x00], None) else ([], Some ''timeout'')), Suc c)"

definition sim_client :: "(RTUClientHandler \<Rightarrow> nat \<Rightarrow> bool) \<Rightarrow> nat Client" where
  "sim_client ok = \<lparr>ReadInputRegisters = sim_read ok, ReadHoldingRegisters = sim_read ok\<rparr>"

definition snip0 :: QuerySnip where
  "snip0 = \<lparr>QuerySnip.DeviceId = 5, FuncCode = 4, OpCode = 0, ReadLen = 2,
            Value = Finite False 0 (- 1074), IEC61850 = ''VolLocPhsA'', ReadTimestamp = 0,
            Transform = RTU32ToFloat64\<rparr>"

definition engine0 :: "nat ModbusEngine" where
  "engine0 = \<lparr>client = 0, handler = \<lparr>SlaveId = 0, Timeout = 300\<rparr>, verbose = False,
              status = \<lparr>ModbusRequests = 0, ModbusReconnects = 0\<rparr>, clock = 0, trace = []\<rparr>"

section \<open>Auxiliary definitions\<close>

subsection \<open>Reads, attempts and control snips\<close>

text \<open>
  The results of \<open>n\<close> consecutive reads of one snip, from the state \<open>c\<close> of the
  client on; the log of \<open>query\<close> after a call; the two control snips of a snip; the
  states after a call, after a failed attempt and after a successful one; the pause
  after a change of device; whether the retry loop was left by the jump; and whether
  the transform of a snip decodes every reading the client can return for it.
\<close>

fun read_results ::
  "'c Client \<Rightarrow> RTUClientHandler \<Rightarrow> QuerySnip \<Rightarrow> nat \<Rightarrow> 'c \<Rightarrow> (byte list \<times> error option) list"
where
  "read_results cl h snip 0 c = []"
| "read_results cl h snip (Suc n) c =
     fst (client_read cl h snip c) # read_results cl h snip n (snd (client_read cl h snip c))"

definition query_log :: "bool \<Rightarrow> QuerySnip \<Rightarrow> error option \<Rightarrow> event list" where
  "query_log v snip err =
     (case err of None \<Rightarrow> []
      | Some e \<Rightarrow> if v then [Log (Failed_to_retrieve_opcode (OpCode snip) e)] else [])"

definition ok_snip :: "QuerySnip \<Rightarrow> ControlSnip" where
  "ok_snip snip = \<lparr>Type = CONTROLSNIP_OK, Message = ''OK'',
                   ControlSnip.DeviceId = QuerySnip.DeviceId snip\<rparr>"

definition err_snip :: "QuerySnip \<Rightarrow> ControlSnip" where
  "err_snip snip =
     \<lparr>Type = CONTROLSNIP_ERROR,
      Message = ''Device '' @ decimal (unat (QuerySnip.DeviceId snip)) @ '' did not respond.'',
      ControlSnip.DeviceId = QuerySnip.DeviceId snip\<rparr>"

definition after_query :: "'c Client \<Rightarrow> QuerySnip \<Rightarrow> 'c ModbusEngine \<Rightarrow> 'c ModbusEngine" where
  "after_query cl snip q =
     (let h = (handler q)\<lparr>SlaveId := DeviceId snip\<rparr>;
          r = fst (client_read cl h snip (client q));
          c = snd (client_read cl h snip (client q))
      in q\<lparr>client := c, handler := h,
           status := (status q)\<lparr>ModbusRequests := ModbusRequests (status q) + 1\<rparr>,
           trace := trace q @ call_event h snip # query_log (verbose q) snip (snd r)\<rparr>)"

definition after_failure ::
  "'c Client \<Rightarrow> QuerySnip \<Rightarrow> nat \<Rightarrow> 'c ModbusEngine \<Rightarrow> 'c ModbusEngine" where
  "after_failure cl snip retryCount q =
     time_Sleep 100
       (log_Printf (Failed_to_respond (DeviceId snip) (retryCount + 1) MaxRetryCount)
          (IncreaseModbusReconnectCounter (after_query cl snip q)))"

definition after_success ::
  "'c Client \<Rightarrow> QuerySnip \<Rightarrow> float64 \<Rightarrow> 'c ModbusEngine \<Rightarrow> 'c ModbusEngine" where
  "after_success cl snip v q =
     emit (Send_controlStream (ok_snip snip))
       (emit (Send_outputStream (snip\<lparr>Value := v, ReadTimestamp := clock q\<rparr>))
          (after_query cl snip q))"

definition settle :: "8 word \<Rightarrow> QuerySnip \<Rightarrow> 'c ModbusEngine \<Rightarrow> 'c ModbusEngine" where
  "settle previousDeviceId snip q =
     (if previousDeviceId \<noteq> DeviceId snip then time_Sleep 100 q else q)"

definition succeeded :: "(loop_exit, 'c) result \<Rightarrow> bool" where
  "succeeded R = (case R of Inl a \<Rightarrow> False | Inr (ex, q) \<Rightarrow> ex = Goto_PROCESS_READINGS)"

definition decodes :: "'c Client \<Rightarrow> QuerySnip \<Rightarrow> bool" where
  "decodes cl snip =
     (\<forall>h c b. fst (client_read cl h snip c) = (b, None) \<longrightarrow> Transform snip b \<noteq> None)"

subsection \<open>Time slept between calls\<close>

text \<open>
  The time slept in a trace, the effects before its first call of the client and after
  its last one, and the time slept between the last call of one trace and the first
  call of the next.
\<close>

fun slept :: "event list \<Rightarrow> nat" where
  "slept [] = 0"
| "slept (Sleep d # es) = d + slept es"
| "slept (e # es) = slept es"

definition before_first_call :: "event list \<Rightarrow> event list" where
  "before_first_call tr = takeWhile (\<lambda>e. \<not> is_call e) tr"

definition after_last_call :: "event list \<Rightarrow> event list" where
  "after_last_call tr = rev (takeWhile (\<lambda>e. \<not> is_call e) (rev tr))"

definition gap :: "event list \<Rightarrow> event list \<Rightarrow> nat" where
  "gap T1 T2 = slept (after_last_call T1) + slept (before_first_call T2)"

subsection \<open>The report of a scan\<close>

text \<open>
  The lines of the final report, the addresses logged as \<open>n/a\<close> and the handlers of
  the calls of a trace.  A bus is \<open>stateless\<close> when the result of a read does not
  depend on the reads before it; \<open>probe_ok\<close> says that the probe of a producer
  succeeds at an address with the timeout \<open>t\<close>, and \<open>first_responder\<close> is the
  first producer of the list whose probe succeeds there.
\<close>

fun report_lines :: "event list \<Rightarrow> (8 word \<times> string) list" where
  "report_lines [] = []"
| "report_lines (Log (Slave_address d t) # es) = (d, t) # report_lines es"
| "report_lines (e # es) = report_lines es"

fun na_lines :: "event list \<Rightarrow> 8 word list" where
  "na_lines [] = []"
| "na_lines (Log (Device_na d) # es) = d # na_lines es"
| "na_lines (e # es) = na_lines es"

fun call_handlers :: "event list \<Rightarrow> RTUClientHandler list" where
  "call_handlers [] = []"
| "call_handlers (Call_ReadInputRegisters h a n # es) = h # call_handlers es"
| "call_handlers (Call_ReadHoldingRegisters h a n # es) = h # call_handlers es"
| "call_handlers (e # es) = call_handlers es"

definition stateless :: "'c Client \<Rightarrow> bool" where
  "stateless cl =
     (\<forall>h a n c c'.
        fst (ReadInputRegisters cl h a n c) = fst (ReadInputRegisters cl h a n c') \<and>
        fst (ReadHoldingRegisters cl h a n c) = fst (ReadHoldingRegisters cl h a n c'))"

definition probe_ok :: "'c Client \<Rightarrow> nat \<Rightarrow> 'c \<Rightarrow> 8 word \<Rightarrow> Producer \<Rightarrow> bool" where
  "probe_ok cl t c d p =
     (snd (fst (client_read cl \<lparr>SlaveId = DeviceId (Probe p d), Timeout = t\<rparr> (Probe p d) c)) = None)"

definition addresses :: "8 word list" where
  "addresses = map of_nat [1..<248]"

definition first_responder ::
  "'c Client \<Rightarrow> nat \<Rightarrow> 'c \<Rightarrow> Producer list \<Rightarrow> 8 word \<Rightarrow> Producer option" where
  "first_responder cl t c producers d = find (probe_ok cl t c d) producers"

definition device_info :: "8 word \<Rightarrow> Producer \<Rightarrow> DeviceInfo" where
  "device_info d p = \<lparr>DeviceInfo.DeviceId = d, MeterType = GetMeterType p\<rparr>"

definition found_from ::
  "'c Client \<Rightarrow> nat \<Rightarrow> 'c \<Rightarrow> Producer list \<Rightarrow> 8 word list \<Rightarrow> DeviceInfo list" where
  "found_from cl t c producers ds =
     concat (map (\<lambda>d. case first_responder cl t c producers d of
                          None \<Rightarrow> [] | Some p \<Rightarrow> [device_info d p]) ds)"

definition absent_from ::
  "'c Client \<Rightarrow> nat \<Rightarrow> 'c \<Rightarrow> Producer list \<Rightarrow> 8 word list \<Rightarrow> 8 word list" where
  "absent_from cl t c producers ds =
     filter (\<lambda>d. first_responder cl t c producers d = None) ds"

definition scan_start :: "'c ModbusEngine \<Rightarrow> 'c ModbusEngine" where
  "scan_start q = log_Printf Starting_bus_scan (q\<lparr>handler := (handler q)\<lparr>Timeout := 50\<rparr>\<rparr>)"

definition scan_finish :: "nat \<Rightarrow> DeviceInfo list \<Rightarrow> 'c ModbusEngine \<Rightarrow> 'c ModbusEngine" where
  "scan_finish oldtimeout deviceList q3 =
     log_Printf Scan_warning
       (foldl (\<lambda>q device. log_Printf (Slave_address (DeviceInfo.DeviceId device)
                                         (MeterType device)) q)
          (log_Printf (Found_active_devices (length deviceList))
             (q3\<lparr>handler := (handler q3)\<lparr>Timeout := oldtimeout\<rparr>\<rparr>))
          deviceList)"

definition scan_tail :: "DeviceInfo list \<Rightarrow> event list" where
  "scan_tail dl =
     Log (Found_active_devices (length dl)) #
     map (\<lambda>x. Log (Slave_address (DeviceInfo.DeviceId x) (MeterType x))) dl @ [Log Scan_warning]"

subsection \<open>Concrete runs\<close>

text \<open>
  A bus that never answers, with the effects of the loop on it for the snip \<open>snip0\<close>
  received twice; a bus on which the devices 5 and 42 answer, and two producers with
  the same probe register.
\<close>

definition dead_bus :: "nat Client" where
  "dead_bus = sim_client (\<lambda>h c. False)"

definition dead_T1 :: "event list" where
  "dead_T1 =
     [Sleep 100,
      Call_ReadInputRegisters \<lparr>SlaveId = 5, Timeout = 300\<rparr> 0 2,
      Log (Failed_to_respond 5 1 5), Sleep 100,
      Call_ReadInputRegisters \<lparr>SlaveId = 5, Timeout = 300\<rparr> 0 2,
      Log (Failed_to_respond 5 2 5), Sleep 100,
      Call_ReadInputRegisters \<lparr>SlaveId = 5, Timeout = 300\<rparr> 0 2,
      Log (Failed_to_respond 5 3 5), Sleep 100,
      Call_ReadInputRegisters \<lparr>SlaveId = 5, Timeout = 300\<rparr> 0 2,
      Log (Failed_to_respond 5 4 5), Sleep 100,
      Call_ReadInputRegisters \<lparr>SlaveId = 5, Timeout = 300\<rparr> 0 2,
      Log (Failed_to_respond 5 5 5), Sleep 100,
      Send_controlStream
        \<lparr>Type = CONTROLSNIP_ERROR, Message = ''Device 5 did not respond.'',
         ControlSnip.DeviceId = 5\<rparr>]"

definition dead_T2 :: "event list" where
  "dead_T2 =
     [Call_ReadInputRegisters \<lparr>SlaveId = 5, Timeout = 300\<rparr> 0 2,
      Log (Failed_to_respond 5 1 5), Sleep 100,
      Call_ReadInputRegisters \<lparr>SlaveId = 5, Timeout = 300\<rparr> 0 2,
      Log (Failed_to_respond 5 2 5), Sleep 100,
      Call_ReadInputRegisters \<lparr>SlaveId = 5, Timeout = 300\<rparr> 0 2,
      Log (Failed_to_respond 5 3 5), Sleep 100,
      Call_ReadInputRegisters \<lparr>SlaveId = 5, Timeout = 300\<rparr> 0 2,
      Log (Failed_to_respond 5 4 5), Sleep 100,
      Call_ReadInputRegisters \<lparr>SlaveId = 5, Timeout = 300\<rparr> 0 2,
      Log (Failed_to_respond 5 5 5), Sleep 100,
      Send_controlStream
        \<lparr>Type = CONTROLSNIP_ERROR, Message = ''Device 5 did not respond.'',
         ControlSnip.DeviceId = 5\<rparr>]"

definition sdm_producer :: Producer where
  "sdm_producer = \<lparr>Probe = (\<lambda>d. snip0\<lparr>QuerySnip.DeviceId := d\<rparr>), GetMeterType = ''SDM''\<rparr>"

definition janitza_producer :: Producer where
  "janitza_producer =
     \<lparr>Probe = (\<lambda>d. snip0\<lparr>QuerySnip.DeviceId := d, FuncCode := 3\<rparr>), GetMeterType = ''JANITZA''\<rparr>"

definition two_device_bus :: "nat Client" where
  "two_device_bus = sim_client (\<lambda>h c. SlaveId h = 5 \<or> SlaveId h = 42)"

section \<open>Properties of the decoders\<close>

lemma RTU32ToFloat64_example:
  "RTU32ToFloat64 [0x40, 0x50, 0x00, 0x00] = Some (Finite False 7318349394477056 (- 51))"
  by (simp add: RTU32ToFloat64_def BigEndian_Uint32_def Float32frombits_def
      float64_of_float32_def round_float64_def bit_length.simps Let_def)

lemma RTU32ToFloat64_decodes: "4 \<le> length b \<Longrightarrow> RTU32ToFloat64 b \<noteq> None"
  by (simp add: RTU32ToFloat64_def BigEndian_Uint32_def)

text \<open>
  C8.  The bytes \<open>40 50 00 00\<close> are the big-endian \<open>float32\<close> 3.25, and
  \<open>RTU32ToFloat64\<close> returns the \<open>float64\<close> 3.25 on them, exactly.  The bytes
  \<open>04 D2\<close> are the big-endian \<open>uint16\<close> 1234, and \<open>rtuScaledInt16ToFloat64\<close> with
  the scalar 10.0 returns on them the \<open>float64\<close> \<open>8683503031523738 * 2^-46\<close>: this is
  the \<open>float64\<close> nearest to 1234 / 10, the one the literal 123.4 denotes, within half a
  unit in the last place (\<open>2^-47\<close>) of 123.4.
\<close>

theorem decode_examples:
  "BigEndian_Uint32 [0x40, 0x50, 0x00, 0x00] = Some 0x40500000
   \<and> float32_val 0x40500000 = Some 3.25
   \<and> RTU32ToFloat64 [0x40, 0x50, 0x00, 0x00] = Some (Finite False 7318349394477056 (- 51))
   \<and> float64_val (Finite False 7318349394477056 (- 51)) = Some 3.25
   \<and> BigEndian_Uint16 [0x04, 0xD2] = Some 1234
   \<and> float64_val (float64_of_nat 10) = Some 10
   \<and> rtuScaledInt16ToFloat64 [0x04, 0xD2] (float64_of_nat 10)
       = Some (Finite False 8683503031523738 (- 46))
   \<and> round_float64 False 1234 10 = Finite False 8683503031523738 (- 46)
   \<and> float64_val (Finite False 8683503031523738 (- 46)) = Some (8683503031523738 / 2 ^ 46)
   \<and> \<bar>8683503031523738 / 2 ^ 46 - 123.4 :: real\<bar> \<le> 1 / 2 ^ 47"
proof -
  have w32: "BigEndian_Uint32 [0x40, 0x50, 0x00, 0x00] = Some 0x40500000"
    by (simp add: BigEndian_Uint32_def)
  have v32: "float32_val 0x40500000 = Some 3.25"
    by (simp add: float32_val_def Let_def power_int_minus)
  have r10: "float64_of_nat 10 = Finite False 5629499534213120 (- 49)"
    by (simp add: float64_of_nat_def round_float64_def bit_length.simps Let_def)
  have r1234: "float64_of_nat 1234 = Finite False 5427189394702336 (- 42)"
    by (simp add: float64_of_nat_def round_float64_def bit_length.simps Let_def)
  have d32: "RTU32ToFloat64 [0x40, 0x50, 0x00, 0x00] = Some (Finite False 7318349394477056 (- 51))"
    by (rule RTU32ToFloat64_example)
  have e32: "float64_val (Finite False 7318349394477056 (- 51)) = Some 3.25"
    by (simp add: power_int_minus)
  have w16: "BigEndian_Uint16 [0x04, 0xD2] = Some 1234"
    by (simp add: BigEndian_Uint16_def)
  have v10: "float64_val (float64_of_nat 10) = Some 10"
    by (simp add: r10 power_int_minus)
  have rq: "round_float64 False 694680242521899008 5629499534213120
            = Finite False 8683503031523738 (- 46)"
    by (simp add: round_float64_def bit_length.simps Let_def)
  have d16: "rtuScaledInt16ToFloat64 [0x04, 0xD2] (float64_of_nat 10)
             = Some (Finite False 8683503031523738 (- 46))"
    by (simp add: rtuScaledInt16ToFloat64_def w16 r10 r1234 rq)
  have lit: "round_float64 False 1234 10 = Finite False 8683503031523738 (- 46)"
    by (simp add: round_float64_def bit_length.simps Let_def)
  have v16: "float64_val (Finite False 8683503031523738 (- 46)) = Some (8683503031523738 / 2 ^ 46)"
    by (simp add: power_int_minus field_simps)
  have near: "\<bar>8683503031523738 / 2 ^ 46 - 123.4 :: real\<bar> \<le> 1 / 2 ^ 47"
    by simp
  from w32 v32 d32 e32 w16 v10 d16 lit v16 near show ?thesis
    by blast
qed

text \<open>
  C9.  On a slice of at least 4 bytes the 32-bit decoders return a value, and on a slice
  of at least 2 bytes the 16-bit decoders do, whatever the scalar: no read is out of
  range and nothing panics.  The decoders are functions of the slice and the scalar
  alone; they neither take nor return a state.
\<close>

theorem decode_total:
  "(4 \<le> length b \<longrightarrow>
      (\<exists>v. RTU32ToFloat64 b = Some v) \<and>
      (\<exists>v. rtuScaledInt32ToFloat64 b scalar = Some v) \<and>
      (\<exists>v. MakeRTU32ScaledIntToFloat64 scalar b = Some v))
   \<and> (2 \<le> length b \<longrightarrow>
      (\<exists>v. RTU16ToFloat64 b = Some v) \<and>
      (\<exists>v. rtuScaledInt16ToFloat64 b scalar = Some v) \<and>
      (\<exists>v. MakeRTU16ScaledIntToFloat64 scalar b = Some v))"
  by (simp add: RTU32ToFloat64_def rtuScaledInt32ToFloat64_def MakeRTU32ScaledIntToFloat64_def
      RTU16ToFloat64_def rtuScaledInt16ToFloat64_def MakeRTU16ScaledIntToFloat64_def
      BigEndian_Uint32_def BigEndian_Uint16_def)

theorem decode_total_witness:
  "4 \<le> length [0x40, 0x50, 0x00, 0x00 :: byte] \<and> 2 \<le> length [0x40, 0x50, 0x00, 0x00 :: byte]
   \<and> (\<exists>v. RTU32ToFloat64 [0x40, 0x50, 0x00, 0x00] = Some v)
   \<and> (\<exists>v. rtuScaledInt32ToFloat64 [0x40, 0x50, 0x00, 0x00] (Finite False 0 (- 1074)) = Some v)
   \<and> (\<exists>v. MakeRTU32ScaledIntToFloat64 (Finite False 0 (- 1074)) [0x40, 0x50, 0x00, 0x00] = Some v)
   \<and> (\<exists>v. RTU16ToFloat64 [0x40, 0x50, 0x00, 0x00] = Some v)
   \<and> (\<exists>v. rtuScaledInt16ToFloat64 [0x40, 0x50, 0x00, 0x00] (Finite False 0 (- 1074)) = Some v)
   \<and> (\<exists>v. MakeRTU16ScaledIntToFloat64 (Finite False 0 (- 1074)) [0x40, 0x50, 0x00, 0x00] = Some v)"
  using decode_total [of "[0x40, 0x50, 0x00, 0x00]" "Finite False 0 (- 1074)"]
  by simp

section \<open>Properties of the query executor\<close>

lemma controls_append [simp]: "controls (xs @ ys) = controls xs @ controls ys"
  by (induction xs rule: controls.induct) simp_all

lemma outputs_append [simp]: "outputs (xs @ ys) = outputs xs @ outputs ys"
  by (induction xs rule: outputs.induct) simp_all

lemma calls_append [simp]: "calls (xs @ ys) = calls xs @ calls ys"
  by (simp add: calls_def)

lemma calls_simps [simp]:
  "calls [] = []"
  "calls (Sleep d # es) = calls es"
  "calls (Log l # es) = calls es"
  "calls (Send_outputStream s # es) = calls es"
  "calls (Send_controlStream c # es) = calls es"
  "calls (Call_ReadInputRegisters h a n # es) = Call_ReadInputRegisters h a n # calls es"
  "calls (Call_ReadHoldingRegisters h a n # es) = Call_ReadHoldingRegisters h a n # calls es"
  by (simp_all add: calls_def)

lemma calls_call_event [simp]: "calls (call_event h snip # es) = call_event h snip # calls es"
  by (simp add: call_event_def)

lemma controls_call_event [simp]: "controls (call_event h snip # es) = controls es"
  by (simp add: call_event_def)

lemma outputs_call_event [simp]: "outputs (call_event h snip # es) = outputs es"
  by (simp add: call_event_def)

lemma query_log_simps [simp]:
  "calls (query_log v snip err) = []"
  "controls (query_log v snip err) = []"
  "outputs (query_log v snip err) = []"
  by (simp_all add: query_log_def split: option.splits)

lemma emit_simps [simp]:
  "client (emit e q) = client q"
  "handler (emit e q) = handler q"
  "verbose (emit e q) = verbose q"
  "status (emit e q) = status q"
  "clock (emit e q) = clock q"
  "trace (emit e q) = trace q @ [e]"
  by (simp_all add: emit_def)

lemma log_Printf_simps [simp]:
  "client (log_Printf l q) = client q"
  "handler (log_Printf l q) = handler q"
  "verbose (log_Printf l q) = verbose q"
  "status (log_Printf l q) = status q"
  "clock (log_Printf l q) = clock q"
  "trace (log_Printf l q) = trace q @ [Log l]"
  by (simp_all add: log_Printf_def)

lemma time_Sleep_simps [simp]:
  "client (time_Sleep d q) = client q"
  "handler (time_Sleep d q) = handler q"
  "verbose (time_Sleep d q) = verbose q"
  "status (time_Sleep d q) = status q"
  "clock (time_Sleep d q) = clock q + d"
  "trace (time_Sleep d q) = trace q @ [Sleep d]"
  by (simp_all add: time_Sleep_def)

lemma query_valid:
  assumes "valid_snip snip"
  shows "query cl snip q =
     (let h = (handler q)\<lparr>SlaveId := DeviceId snip\<rparr>;
          r = fst (client_read cl h snip (client q));
          c = snd (client_read cl h snip (client q))
      in Inr (r, q\<lparr>client := c, handler := h,
                   status := (status q)\<lparr>ModbusRequests := ModbusRequests (status q) + 1\<rparr>,
                   trace := trace q @ call_event h snip # query_log (verbose q) snip (snd r)\<rparr>))"
  using assms
  by (auto simp: valid_snip_def query_def client_read_def call_event_def Let_def emit_def
      log_Printf_def IncreaseModbusRequestCounter_def ReadInputReg_def ReadHoldingReg_def
      query_log_def word_gt_0 split: prod.splits option.splits)

lemma query_invalid:
  assumes "\<not> valid_snip snip"
  shows "query cl snip q =
     Inl (Fatal, q\<lparr>status := (status q)\<lparr>ModbusRequests := ModbusRequests (status q) + 1\<rparr>,
                   handler := (handler q)\<lparr>SlaveId := DeviceId snip\<rparr>,
                   trace := trace q @
                     [Log (if ReadLen snip = 0 then Invalid_meter_operation snip
                           else Unknown_function_code (FuncCode snip))]\<rparr>)"
proof (cases "ReadLen snip = 0")
  case True
  then show ?thesis
    by (simp add: query_def Let_def emit_def log_Fatalf_def IncreaseModbusRequestCounter_def)
next
  case False
  with assms have "FuncCode snip \<noteq> ReadInputReg" "FuncCode snip \<noteq> ReadHoldingReg"
    by (auto simp: valid_snip_def word_gt_0)
  with False show ?thesis
    by (simp add: query_def Let_def emit_def log_Fatalf_def IncreaseModbusRequestCounter_def)
qed

text \<open>
  C7.  A snip whose register count is not positive, or whose function code is neither 3
  nor 4, ends the run fatally: \<open>query\<close> returns no result, calls no read method and
  leaves the client as it was.  Otherwise function code 4 calls \<open>ReadInputRegisters\<close>
  and function code 3 calls \<open>ReadHoldingRegisters\<close>, once, for the snip's device, and
  \<open>query\<close> returns the pair of bytes and error of that one call as it is: a failure of
  the transport is handed to the caller and nothing is retried.
\<close>

theorem query_validates_then_dispatches:
  "(ReadLen snip \<le> 0 \<or> (FuncCode snip \<noteq> ReadHoldingReg \<and> FuncCode snip \<noteq> ReadInputReg) \<longrightarrow>
      (\<exists>q'. query cl snip q = Inl (Fatal, q') \<and> client q' = client q
            \<and> calls (trace q') = calls (trace q)))
   \<and> (0 < ReadLen snip \<and> FuncCode snip = ReadInputReg \<longrightarrow>
      (\<exists>q'. query cl snip q =
              Inr (fst (ReadInputRegisters cl ((handler q)\<lparr>SlaveId := DeviceId snip\<rparr>)
                         (OpCode snip) (ReadLen snip) (client q)), q')
            \<and> client q' = snd (ReadInputRegisters cl ((handler q)\<lparr>SlaveId := DeviceId snip\<rparr>)
                                  (OpCode snip) (ReadLen snip) (client q))
            \<and> calls (trace q') = calls (trace q) @
                 [Call_ReadInputRegisters ((handler q)\<lparr>SlaveId := DeviceId snip\<rparr>)
                    (OpCode snip) (ReadLen snip)]))
   \<and> (0 < ReadLen snip \<and> FuncCode snip = ReadHoldingReg \<longrightarrow>
      (\<exists>q'. query cl snip q =
              Inr (fst (ReadHoldingRegisters cl ((handler q)\<lparr>SlaveId := DeviceId snip\<rparr>)
                         (OpCode snip) (ReadLen snip) (client q)), q')
            \<and> client q' = snd (ReadHoldingRegisters cl ((handler q)\<lparr>SlaveId := DeviceId snip\<rparr>)
                                  (OpCode snip) (ReadLen snip) (client q))
            \<and> calls (trace q') = calls (trace q) @
                 [Call_ReadHoldingRegisters ((handler q)\<lparr>SlaveId := DeviceId snip\<rparr>)
                    (OpCode snip) (ReadLen snip)]))"
proof (intro conjI impI)
  assume "ReadLen snip \<le> 0 \<or> (FuncCode snip \<noteq> ReadHoldingReg \<and> FuncCode snip \<noteq> ReadInputReg)"
  then have "\<not> valid_snip snip"
    by (auto simp: valid_snip_def)
  then show "\<exists>q'. query cl snip q = Inl (Fatal, q') \<and> client q' = client q
            \<and> calls (trace q') = calls (trace q)"
    by (simp add: query_invalid)
next
  assume a: "0 < ReadLen snip \<and> FuncCode snip = ReadInputReg"
  then have "valid_snip snip"
    by (simp add: valid_snip_def)
  with a show "\<exists>q'. query cl snip q =
              Inr (fst (ReadInputRegisters cl ((handler q)\<lparr>SlaveId := DeviceId snip\<rparr>)
                         (OpCode snip) (ReadLen snip) (client q)), q')
            \<and> client q' = snd (ReadInputRegisters cl ((handler q)\<lparr>SlaveId := DeviceId snip\<rparr>)
                                  (OpCode snip) (ReadLen snip) (client q))
            \<and> calls (trace q') = calls (trace q) @
                 [Call_ReadInputRegisters ((handler q)\<lparr>SlaveId := DeviceId snip\<rparr>)
                    (OpCode snip) (ReadLen snip)]"
    by (simp add: query_valid Let_def client_read_def call_event_def)
next
  assume a: "0 < ReadLen snip \<and> FuncCode snip = ReadHoldingReg"
  then have "valid_snip snip"
    by (simp add: valid_snip_def)
  with a show "\<exists>q'. query cl snip q =
              Inr (fst (ReadHoldingRegisters cl ((handler q)\<lparr>SlaveId := DeviceId snip\<rparr>)
                         (OpCode snip) (ReadLen snip) (client q)), q')
            \<and> client q' = snd (ReadHoldingRegisters cl ((handler q)\<lparr>SlaveId := DeviceId snip\<rparr>)
                                  (OpCode snip) (ReadLen snip) (client q))
            \<and> calls (trace q') = calls (trace q) @
                 [Call_ReadHoldingRegisters ((handler q)\<lparr>SlaveId := DeviceId snip\<rparr>)
                    (OpCode snip) (ReadLen snip)]"
    by (simp add: query_valid Let_def client_read_def call_event_def ReadInputReg_def ReadHoldingReg_def)
qed

theorem query_validates_then_dispatches_witness:
  "ReadLen (snip0\<lparr>ReadLen := 0\<rparr>) \<le> 0
   \<and> (\<exists>q'. query (sim_client (\<lambda>h c. True)) (snip0\<lparr>ReadLen := 0\<rparr>) engine0 = Inl (Fatal, q')
          \<and> client q' = 0 \<and> calls (trace q') = [])
   \<and> 0 < ReadLen snip0 \<and> FuncCode snip0 = ReadInputReg
   \<and> (\<exists>q'. query (sim_client (\<lambda>h c. True)) snip0 engine0
               = Inr (([0x40, 0x50, 0x00, 0x00], None), q')
          \<and> client q' = 1
          \<and> calls (trace q') = [Call_ReadInputRegisters \<lparr>SlaveId = 5, Timeout = 300\<rparr> 0 2])
   \<and> 0 < ReadLen (snip0\<lparr>FuncCode := 3\<rparr>) \<and> FuncCode (snip0\<lparr>FuncCode := 3\<rparr>) = ReadHoldingReg
   \<and> (\<exists>q'. query (sim_client (\<lambda>h c. False)) (snip0\<lparr>FuncCode := 3\<rparr>) engine0
               = Inr (([], Some ''timeout''), q')
          \<and> client q' = 1
          \<and> calls (trace q') = [Call_ReadHoldingRegisters \<lparr>SlaveId = 5, Timeout = 300\<rparr> 0 2])"
  using query_validates_then_dispatches [of "snip0\<lparr>ReadLen := 0\<rparr>" "sim_client (\<lambda>h c. True)" engine0]
    query_validates_then_dispatches [of snip0 "sim_client (\<lambda>h c. True)" engine0]
    query_validates_then_dispatches [of "snip0\<lparr>FuncCode := 3\<rparr>" "sim_client (\<lambda>h c. False)" engine0]
  by (simp add: snip0_def engine0_def sim_client_def sim_read_def ReadInputReg_def
      ReadHoldingReg_def)

lemma query_valid':
  "valid_snip snip \<Longrightarrow>
   query cl snip q =
     Inr (fst (client_read cl ((handler q)\<lparr>SlaveId := DeviceId snip\<rparr>) snip (client q)),
          after_query cl snip q)"
  by (simp add: query_valid after_query_def Let_def)

lemma after_query_simps [simp]:
  "client (after_query cl snip q) =
     snd (client_read cl ((handler q)\<lparr>SlaveId := DeviceId snip\<rparr>) snip (client q))"
  "handler (after_query cl snip q) = (handler q)\<lparr>SlaveId := DeviceId snip\<rparr>"
  "verbose (after_query cl snip q) = verbose q"
  "clock (after_query cl snip q) = clock q"
  "ModbusRequests (status (after_query cl snip q)) = ModbusRequests (status q) + 1"
  "ModbusReconnects (status (after_query cl snip q)) = ModbusReconnects (status q)"
  "trace (after_query cl snip q) =
     trace q @ call_event ((handler q)\<lparr>SlaveId := DeviceId snip\<rparr>) snip #
       query_log (verbose q) snip
         (snd (fst (client_read cl ((handler q)\<lparr>SlaveId := DeviceId snip\<rparr>) snip (client q))))"
  by (simp_all add: after_query_def Let_def)

lemma after_failure_simps [simp]:
  "client (after_failure cl snip r q) = client (after_query cl snip q)"
  "handler (after_failure cl snip r q) = (handler q)\<lparr>SlaveId := DeviceId snip\<rparr>"
  "verbose (after_failure cl snip r q) = verbose q"
  "clock (after_failure cl snip r q) = clock q + 100"
  "ModbusRequests (status (after_failure cl snip r q)) = ModbusRequests (status q) + 1"
  "ModbusReconnects (status (after_failure cl snip r q)) = ModbusReconnects (status q) + 1"
  "trace (after_failure cl snip r q) =
     trace (after_query cl snip q) @
       [Log (Failed_to_respond (DeviceId snip) (r + 1) MaxRetryCount), Sleep 100]"
  by (simp_all add: after_failure_def time_Sleep_def log_Printf_def emit_def
      IncreaseModbusReconnectCounter_def)

lemma after_success_simps [simp]:
  "client (after_success cl snip v q) = client (after_query cl snip q)"
  "handler (after_success cl snip v q) = (handler q)\<lparr>SlaveId := DeviceId snip\<rparr>"
  "verbose (after_success cl snip v q) = verbose q"
  "clock (after_success cl snip v q) = clock q"
  "ModbusRequests (status (after_success cl snip v q)) = ModbusRequests (status q) + 1"
  "ModbusReconnects (status (after_success cl snip v q)) = ModbusReconnects (status q)"
  "trace (after_success cl snip v q) =
     trace (after_query cl snip q) @
       [Send_outputStream (snip\<lparr>Value := v, ReadTimestamp := clock q\<rparr>),
        Send_controlStream (ok_snip snip)]"
  by (simp_all add: after_success_def emit_def)

section \<open>Properties of the polling loop\<close>

subsection \<open>The retry loop, step by step\<close>

lemma length_read_results [simp]: "length (read_results cl h snip n c) = n"
  by (induction n arbitrary: c) simp_all

lemma retry_loop_ok:
  assumes "valid_snip snip" "retryCount < MaxRetryCount"
    and "fst (client_read cl ((handler q)\<lparr>SlaveId := DeviceId snip\<rparr>) snip (client q)) = (reading, None)"
    and "Transform snip reading = Some v"
  shows "retry_loop cl snip retryCount q = Inr (Goto_PROCESS_READINGS, after_success cl snip v q)"
  apply (subst retry_loop.simps)
  apply (simp add: assms query_valid' Let_def after_success_def ok_snip_def)
  done

lemma retry_loop_panic:
  assumes "valid_snip snip" "retryCount < MaxRetryCount"
    and "fst (client_read cl ((handler q)\<lparr>SlaveId := DeviceId snip\<rparr>) snip (client q)) = (reading, None)"
    and "Transform snip reading = None"
  shows "retry_loop cl snip retryCount q = Inl (Panic, after_query cl snip q)"
  apply (subst retry_loop.simps)
  apply (simp add: assms query_valid' Let_def)
  done

lemma retry_loop_fail:
  assumes "valid_snip snip" "retryCount < MaxRetryCount"
    and "fst (client_read cl ((handler q)\<lparr>SlaveId := DeviceId snip\<rparr>) snip (client q)) = (reading, Some e)"
  shows "retry_loop cl snip retryCount q =
         retry_loop cl snip (Suc retryCount) (after_failure cl snip retryCount q)"
  apply (subst retry_loop.simps)
  apply (simp add: assms query_valid' Let_def after_failure_def)
  done

lemma retry_loop_done:
  assumes "\<not> retryCount < MaxRetryCount"
  shows "retry_loop cl snip retryCount q = Inr (Loop_done, q)"
  apply (subst retry_loop.simps)
  apply (simp add: assms)
  done

lemma retry_loop_fatal:
  assumes "\<not> valid_snip snip" "retryCount < MaxRetryCount"
  shows "retry_loop cl snip retryCount q =
     Inl (Fatal, q\<lparr>status := (status q)\<lparr>ModbusRequests := ModbusRequests (status q) + 1\<rparr>,
                   handler := (handler q)\<lparr>SlaveId := DeviceId snip\<rparr>,
                   trace := trace q @
                     [Log (if ReadLen snip = 0 then Invalid_meter_operation snip
                           else Unknown_function_code (FuncCode snip))]\<rparr>)"
  apply (subst retry_loop.simps)
  apply (simp add: assms query_invalid)
  done

lemma retry_loop_succeeds:
  assumes "valid_snip snip"
    and "retryCount + n < MaxRetryCount"
    and "read_results cl h snip (Suc n) (client q) = fails @ [(reading, None)]"
    and "\<forall>r\<in>set fails. snd r \<noteq> None"
    and "Transform snip reading = Some v"
    and "h = (handler q)\<lparr>SlaveId := DeviceId snip\<rparr>"
  shows "\<exists>q'. retry_loop cl snip retryCount q = Inr (Goto_PROCESS_READINGS, q')
     \<and> controls (trace q') = controls (trace q) @ [ok_snip snip]
     \<and> outputs (trace q') = outputs (trace q) @ [snip\<lparr>Value := v, ReadTimestamp := clock q'\<rparr>]
     \<and> calls (trace q') = calls (trace q) @ replicate (Suc n) (call_event h snip)
     \<and> ModbusReconnects (status q') = ModbusReconnects (status q) + n
     \<and> ModbusRequests (status q') = ModbusRequests (status q) + Suc n
     \<and> clock q' = clock q + 100 * n"
  using assms
proof (induction n arbitrary: retryCount q fails)
  case 0
  from "0.prems"(3) have "length (fails @ [(reading, None :: error option)]) = 1"
    by (metis length_read_results One_nat_def)
  then have fails: "fails = []"
    by simp
  with "0.prems"(3,6) have r: "fst (client_read cl ((handler q)\<lparr>SlaveId := DeviceId snip\<rparr>) snip (client q)) = (reading, None)"
    by simp
  from "0.prems"(2) have lt: "retryCount < MaxRetryCount"
    by simp
  have "retry_loop cl snip retryCount q = Inr (Goto_PROCESS_READINGS, after_success cl snip v q)"
    using "0.prems"(1) lt r "0.prems"(5) by (rule retry_loop_ok)
  then show ?case
    using r "0.prems"(6) by (simp add: query_log_def)
next
  case (Suc n)
  let ?r = "fst (client_read cl h snip (client q))"
  let ?c = "snd (client_read cl h snip (client q))"
  from Suc.prems(3) have len: "length (fails @ [(reading, None :: error option)]) = Suc (Suc n)"
    by (metis length_read_results)
  then obtain f fails' where fails: "fails = f # fails'"
    by (cases fails) auto
  with Suc.prems(3) have f: "f = ?r"
    and rest: "read_results cl h snip (Suc n) ?c = fails' @ [(reading, None)]"
    by simp_all
  from fails Suc.prems(4) f have err: "snd ?r \<noteq> None" and fails': "\<forall>r\<in>set fails'. snd r \<noteq> None"
    by simp_all
  then obtain b e where e: "?r = (b, Some e)"
    by (cases ?r) auto
  from Suc.prems(2) have lt: "retryCount < MaxRetryCount" and lt': "Suc retryCount + n < MaxRetryCount"
    by simp_all
  let ?q4 = "after_failure cl snip retryCount q"
  have step: "retry_loop cl snip retryCount q = retry_loop cl snip (Suc retryCount) ?q4"
    using Suc.prems(1) lt e [unfolded Suc.prems(6)] by (rule retry_loop_fail)
  have h': "h = (handler ?q4)\<lparr>SlaveId := DeviceId snip\<rparr>"
    using Suc.prems(6) by simp
  have rest': "read_results cl h snip (Suc n) (client ?q4) = fails' @ [(reading, None)]"
    using rest Suc.prems(6) by simp
  from Suc.IH [OF Suc.prems(1) lt' rest' fails' Suc.prems(5) h']
  obtain q' where q': "retry_loop cl snip (Suc retryCount) ?q4 = Inr (Goto_PROCESS_READINGS, q')"
     "controls (trace q') = controls (trace ?q4) @ [ok_snip snip]"
     "outputs (trace q') = outputs (trace ?q4) @ [snip\<lparr>Value := v, ReadTimestamp := clock q'\<rparr>]"
     "calls (trace q') = calls (trace ?q4) @ replicate (Suc n) (call_event h snip)"
     "ModbusReconnects (status q') = ModbusReconnects (status ?q4) + n"
     "ModbusRequests (status q') = ModbusRequests (status ?q4) + Suc n"
     "clock q' = clock ?q4 + 100 * n"
    by blast
  have tr: "controls (trace ?q4) = controls (trace q)" "outputs (trace ?q4) = outputs (trace q)"
    "calls (trace ?q4) = calls (trace q) @ [call_event h snip]"
    using Suc.prems(6) by simp_all
  show ?case
    unfolding step using q' tr by (simp add: replicate_append_same)
qed

lemma retry_loop_exhausts:
  assumes "valid_snip snip"
    and "retryCount + n = MaxRetryCount"
    and "\<forall>r\<in>set (read_results cl h snip n (client q)). snd r \<noteq> None"
    and "h = (handler q)\<lparr>SlaveId := DeviceId snip\<rparr>"
  shows "\<exists>q'. retry_loop cl snip retryCount q = Inr (Loop_done, q')
     \<and> controls (trace q') = controls (trace q)
     \<and> outputs (trace q') = outputs (trace q)
     \<and> calls (trace q') = calls (trace q) @ replicate n (call_event h snip)
     \<and> ModbusReconnects (status q') = ModbusReconnects (status q) + n
     \<and> ModbusRequests (status q') = ModbusRequests (status q) + n
     \<and> clock q' = clock q + 100 * n"
  using assms(2,3,4)
proof (induction n arbitrary: retryCount q)
  case 0
  then have "\<not> retryCount < MaxRetryCount"
    by simp
  then have "retry_loop cl snip retryCount q = Inr (Loop_done, q)"
    by (rule retry_loop_done)
  then show ?case
    by simp
next
  case (Suc n)
  let ?r = "fst (client_read cl h snip (client q))"
  from Suc.prems(2) have "snd ?r \<noteq> None"
    and rest: "\<forall>r\<in>set (read_results cl h snip n (snd (client_read cl h snip (client q)))). snd r \<noteq> None"
    by simp_all
  then obtain b e where e: "?r = (b, Some e)"
    by (cases ?r) auto
  from Suc.prems(1) have lt: "retryCount < MaxRetryCount" and eq': "Suc retryCount + n = MaxRetryCount"
    by simp_all
  let ?q4 = "after_failure cl snip retryCount q"
  have step: "retry_loop cl snip retryCount q = retry_loop cl snip (Suc retryCount) ?q4"
    using assms(1) lt e [unfolded Suc.prems(3)] by (rule retry_loop_fail)
  have h': "h = (handler ?q4)\<lparr>SlaveId := DeviceId snip\<rparr>"
    using Suc.prems(3) by simp
  have rest': "\<forall>r\<in>set (read_results cl h snip n (client ?q4)). snd r \<noteq> None"
    using rest Suc.prems(3) by simp
  from Suc.IH [OF eq' rest' h']
  obtain q' where q': "retry_loop cl snip (Suc retryCount) ?q4 = Inr (Loop_done, q')"
     "controls (trace q') = controls (trace ?q4)"
     "outputs (trace q') = outputs (trace ?q4)"
     "calls (trace q') = calls (trace ?q4) @ replicate n (call_event h snip)"
     "ModbusReconnects (status q') = ModbusReconnects (status ?q4) + n"
     "ModbusRequests (status q') = ModbusRequests (status ?q4) + n"
     "clock q' = clock ?q4 + 100 * n"
    by blast
  have tr: "controls (trace ?q4) = controls (trace q)" "outputs (trace ?q4) = outputs (trace q)"
    "calls (trace ?q4) = calls (trace q) @ [call_event h snip]"
    using Suc.prems(3) by simp_all
  show ?case
    unfolding step using q' tr by (simp add: replicate_append_same)
qed

lemma settle_simps [simp]:
  "client (settle p snip q) = client q"
  "handler (settle p snip q) = handler q"
  "verbose (settle p snip q) = verbose q"
  "status (settle p snip q) = status q"
  "trace (settle p snip q) = trace q @ (if p \<noteq> DeviceId snip then [Sleep 100] else [])"
  by (simp_all add: settle_def time_Sleep_def emit_def)

lemma process_snip_alt:
  "process_snip cl p snip q =
     (case retry_loop cl snip 0 (settle p snip q) of
        Inl a \<Rightarrow> Inl a
      | Inr (Goto_PROCESS_READINGS, q2) \<Rightarrow> Inr ((), q2)
      | Inr (Loop_done, q2) \<Rightarrow> Inr ((), emit (Send_controlStream (err_snip snip)) q2))"
  by (simp add: process_snip_def settle_def err_snip_def Let_def
      split: sum.splits prod.splits loop_exit.splits)

lemma MaxRetryCount_pos [simp]: "0 < MaxRetryCount"
  by (simp add: MaxRetryCount_def)

lemma ok_snip_neq_err_snip [simp]: "ok_snip s \<noteq> err_snip s'" "err_snip s' \<noteq> ok_snip s"
  by (simp_all add: ok_snip_def err_snip_def)

lemma valid_snip0: "valid_snip snip0"
  by (simp add: valid_snip_def snip0_def ReadInputReg_def)

lemma decimal_5: "decimal 5 = ''5''"
  by (simp add: decimal.simps)

lemma sim_client_decodes:
  assumes "Transform snip = RTU32ToFloat64"
  shows "decodes (sim_client ok) snip"
  unfolding decodes_def
proof (intro allI impI)
  fix h c b
  assume "fst (client_read (sim_client ok) h snip c) = (b, None)"
  then have "b = [0x40, 0x50, 0x00, 0x00]"
    by (auto simp: client_read_def sim_client_def sim_read_def split: if_splits)
  then have "4 \<le> length b"
    by simp
  then show "Transform snip b \<noteq> None"
    using assms by (simp add: RTU32ToFloat64_decodes)
qed

subsection \<open>Success and exhaustion\<close>

text \<open>
  C1.  Let the reads of a valid snip fail \<open>k - 1\<close> times and then succeed, with
  \<open>1 \<le> k \<le> MaxRetryCount\<close>, and let the snip's transform decode the bytes read to
  \<open>v\<close>.  Then the round of the loop for this snip sends exactly one control snip, an OK
  for the snip's device, sends exactly one snip on the output channel, with the value
  \<open>v\<close> and the time stamp of the clock, calls the client \<open>k\<close> times and no more,
  raises the reconnect counter by \<open>k - 1\<close>, and the loop goes on with the next snip of
  the input channel.
\<close>

theorem success_on_attempt_k:
  assumes "valid_snip snip"
    and "1 \<le> k" and "k \<le> MaxRetryCount"
    and "read_results cl ((handler q)\<lparr>SlaveId := DeviceId snip\<rparr>) snip k (client q)
           = fails @ [(reading, None)]"
    and "\<forall>r\<in>set fails. snd r \<noteq> None"
    and "Transform snip reading = Some v"
  shows "\<exists>q'. process_snip cl previousDeviceId snip q = Inr ((), q')
     \<and> controls (trace q') = controls (trace q) @
           [\<lparr>Type = CONTROLSNIP_OK, Message = ''OK'', ControlSnip.DeviceId = DeviceId snip\<rparr>]
     \<and> outputs (trace q') = outputs (trace q) @ [snip\<lparr>Value := v, ReadTimestamp := clock q'\<rparr>]
     \<and> length (calls (trace q')) = length (calls (trace q)) + k
     \<and> ModbusReconnects (status q') = ModbusReconnects (status q) + (k - 1)
     \<and> Transform_loop cl previousDeviceId (snip # inputStream) q
         = Transform_loop cl (DeviceId snip) inputStream q'"
proof -
  let ?q1 = "settle previousDeviceId snip q"
  let ?h = "(handler q)\<lparr>SlaveId := DeviceId snip\<rparr>"
  from assms(2) obtain n where k: "k = Suc n"
    by (cases k) auto
  with assms(3) have lt: "0 + n < MaxRetryCount"
    by simp
  have rr: "read_results cl ?h snip (Suc n) (client ?q1) = fails @ [(reading, None)]"
    using assms(4) k by simp
  have h: "?h = (handler ?q1)\<lparr>SlaveId := DeviceId snip\<rparr>"
    by simp
  from retry_loop_succeeds [OF assms(1) lt rr assms(5) assms(6) h]
  obtain q' where q': "retry_loop cl snip 0 ?q1 = Inr (Goto_PROCESS_READINGS, q')"
     "controls (trace q') = controls (trace ?q1) @ [ok_snip snip]"
     "outputs (trace q') = outputs (trace ?q1) @ [snip\<lparr>Value := v, ReadTimestamp := clock q'\<rparr>]"
     "calls (trace q') = calls (trace ?q1) @ replicate (Suc n) (call_event ?h snip)"
     "ModbusReconnects (status q') = ModbusReconnects (status ?q1) + n"
    by blast
  have p: "process_snip cl previousDeviceId snip q = Inr ((), q')"
    by (simp add: process_snip_alt q'(1))
  have "Transform_loop cl previousDeviceId (snip # inputStream) q
         = Transform_loop cl (DeviceId snip) inputStream q'"
    by (simp add: p)
  with p q' k show ?thesis
    by (simp add: ok_snip_def)
qed

theorem success_on_attempt_k_witness:
  "valid_snip snip0 \<and> (1::nat) \<le> 3 \<and> 3 \<le> MaxRetryCount
   \<and> read_results (sim_client (\<lambda>h c. c = 2)) \<lparr>SlaveId = 5, Timeout = 300\<rparr> snip0 3 0
       = [([], Some ''timeout''), ([], Some ''timeout''), ([0x40, 0x50, 0x00, 0x00], None)]
   \<and> Transform snip0 [0x40, 0x50, 0x00, 0x00] = Some (Finite False 7318349394477056 (- 51))
   \<and> (\<exists>q'. process_snip (sim_client (\<lambda>h c. c = 2)) 0 snip0 engine0 = Inr ((), q')
         \<and> controls (trace q')
             = [\<lparr>Type = CONTROLSNIP_OK, Message = ''OK'', ControlSnip.DeviceId = 5\<rparr>]
         \<and> map Value (outputs (trace q')) = [Finite False 7318349394477056 (- 51)]
         \<and> length (calls (trace q')) = 3
         \<and> ModbusReconnects (status q') = 2)"
proof -
  let ?cl = "sim_client (\<lambda>h c. c = 2)"
  have rr: "read_results ?cl ((handler engine0)\<lparr>SlaveId := DeviceId snip0\<rparr>) snip0 3 (client engine0)
       = [([], Some ''timeout''), ([], Some ''timeout'')] @ [([0x40, 0x50, 0x00, 0x00], None)]"
    by (simp add: numeral_3_eq_3 client_read_def sim_client_def sim_read_def snip0_def engine0_def)
  have fl: "\<forall>r\<in>set [([] :: byte list, Some ''timeout''), ([], Some ''timeout'')]. snd r \<noteq> None"
    by simp
  have tr: "Transform snip0 [0x40, 0x50, 0x00, 0x00] = Some (Finite False 7318349394477056 (- 51))"
    by (simp add: snip0_def RTU32ToFloat64_example)
  have k: "(1::nat) \<le> 3" "3 \<le> MaxRetryCount"
    by (simp_all add: MaxRetryCount_def)
  from success_on_attempt_k [OF valid_snip0 k rr fl tr, of 0 "[]"]
  obtain q' where q': "process_snip ?cl 0 snip0 engine0 = Inr ((), q')"
    "controls (trace q') = controls (trace engine0) @
           [\<lparr>Type = CONTROLSNIP_OK, Message = ''OK'', ControlSnip.DeviceId = DeviceId snip0\<rparr>]"
    "outputs (trace q') = outputs (trace engine0) @
       [snip0\<lparr>Value := Finite False 7318349394477056 (- 51), ReadTimestamp := clock q'\<rparr>]"
    "length (calls (trace q')) = length (calls (trace engine0)) + 3"
    "ModbusReconnects (status q') = ModbusReconnects (status engine0) + (3 - 1)"
    by blast
  have "controls (trace q') = [\<lparr>Type = CONTROLSNIP_OK, Message = ''OK'', ControlSnip.DeviceId = 5\<rparr>]"
    "map Value (outputs (trace q')) = [Finite False 7318349394477056 (- 51)]"
    "length (calls (trace q')) = 3"
    "ModbusReconnects (status q') = 2"
    using q'(2-5) by (simp_all add: engine0_def snip0_def)
  with q'(1) valid_snip0 k tr rr show ?thesis
    by (simp add: engine0_def snip0_def)
qed

text \<open>
  C2.  Let all \<open>MaxRetryCount\<close> reads of a valid snip fail.  Then the round of the loop
  for this snip sends exactly one control snip, an ERROR that names the snip's device,
  sends nothing on the output channel, calls the client \<open>MaxRetryCount\<close> times,
  raises the reconnect counter by \<open>MaxRetryCount\<close>, and the loop goes on with the next
  snip of the input channel: the failed snip is not put back.
\<close>

theorem retries_exhausted:
  assumes "valid_snip snip"
    and "\<forall>r\<in>set (read_results cl ((handler q)\<lparr>SlaveId := DeviceId snip\<rparr>) snip MaxRetryCount
                    (client q)). snd r \<noteq> None"
  shows "\<exists>q'. process_snip cl previousDeviceId snip q = Inr ((), q')
     \<and> controls (trace q') = controls (trace q) @
           [\<lparr>Type = CONTROLSNIP_ERROR,
             Message = ''Device '' @ decimal (unat (DeviceId snip)) @ '' did not respond.'',
             ControlSnip.DeviceId = DeviceId snip\<rparr>]
     \<and> outputs (trace q') = outputs (trace q)
     \<and> length (calls (trace q')) = length (calls (trace q)) + MaxRetryCount
     \<and> ModbusReconnects (status q') = ModbusReconnects (status q) + MaxRetryCount
     \<and> Transform_loop cl previousDeviceId (snip # inputStream) q
         = Transform_loop cl (DeviceId snip) inputStream q'"
proof -
  let ?q1 = "settle previousDeviceId snip q"
  let ?h = "(handler q)\<lparr>SlaveId := DeviceId snip\<rparr>"
  have eq: "0 + MaxRetryCount = MaxRetryCount"
    by simp
  have rr: "\<forall>r\<in>set (read_results cl ?h snip MaxRetryCount (client ?q1)). snd r \<noteq> None"
    using assms(2) by simp
  have h: "?h = (handler ?q1)\<lparr>SlaveId := DeviceId snip\<rparr>"
    by simp
  from retry_loop_exhausts [OF assms(1) eq rr h]
  obtain q2 where q2: "retry_loop cl snip 0 ?q1 = Inr (Loop_done, q2)"
     "controls (trace q2) = controls (trace ?q1)"
     "outputs (trace q2) = outputs (trace ?q1)"
     "calls (trace q2) = calls (trace ?q1) @ replicate MaxRetryCount (call_event ?h snip)"
     "ModbusReconnects (status q2) = ModbusReconnects (status ?q1) + MaxRetryCount"
    by blast
  let ?q' = "emit (Send_controlStream (err_snip snip)) q2"
  have p: "process_snip cl previousDeviceId snip q = Inr ((), ?q')"
    by (simp add: process_snip_alt q2(1))
  have "Transform_loop cl previousDeviceId (snip # inputStream) q
         = Transform_loop cl (DeviceId snip) inputStream ?q'"
    by (simp add: p)
  with p q2 show ?thesis
    by (simp add: err_snip_def)
qed

theorem retries_exhausted_witness:
  "valid_snip snip0
   \<and> read_results (sim_client (\<lambda>h c. False)) \<lparr>SlaveId = 5, Timeout = 300\<rparr> snip0 5 0
       = replicate 5 ([], Some ''timeout'')
   \<and> (\<exists>q'. process_snip (sim_client (\<lambda>h c. False)) 0 snip0 engine0 = Inr ((), q')
         \<and> controls (trace q')
             = [\<lparr>Type = CONTROLSNIP_ERROR, Message = ''Device 5 did not respond.'',
                 ControlSnip.DeviceId = 5\<rparr>]
         \<and> outputs (trace q') = []
         \<and> length (calls (trace q')) = 5
         \<and> ModbusReconnects (status q') = 5)"
proof -
  let ?cl = "sim_client (\<lambda>h c. False)"
  have rr: "read_results ?cl ((handler engine0)\<lparr>SlaveId := DeviceId snip0\<rparr>) snip0 MaxRetryCount (client engine0)
       = replicate 5 ([], Some ''timeout'')"
    by (simp add: MaxRetryCount_def eval_nat_numeral client_read_def sim_client_def sim_read_def snip0_def engine0_def)
  then have fl: "\<forall>r\<in>set (read_results ?cl ((handler engine0)\<lparr>SlaveId := DeviceId snip0\<rparr>) snip0
                    MaxRetryCount (client engine0)). snd r \<noteq> None"
    by simp
  from retries_exhausted [OF valid_snip0 fl, of 0 "[]"]
  obtain q' where q': "process_snip ?cl 0 snip0 engine0 = Inr ((), q')"
    "controls (trace q') = controls (trace engine0) @
           [\<lparr>Type = CONTROLSNIP_ERROR,
             Message = ''Device '' @ decimal (unat (DeviceId snip0)) @ '' did not respond.'',
             ControlSnip.DeviceId = DeviceId snip0\<rparr>]"
    "outputs (trace q') = outputs (trace engine0)"
    "length (calls (trace q')) = length (calls (trace engine0)) + MaxRetryCount"
    "ModbusReconnects (status q') = ModbusReconnects (status engine0) + MaxRetryCount"
    by blast
  have "controls (trace q') = [\<lparr>Type = CONTROLSNIP_ERROR, Message = ''Device 5 did not respond.'',
                 ControlSnip.DeviceId = 5\<rparr>]"
    "outputs (trace q') = []"
    "length (calls (trace q')) = 5"
    "ModbusReconnects (status q') = 5"
    using q'(2-5) by (simp_all add: engine0_def snip0_def decimal_5 MaxRetryCount_def)
  with q'(1) valid_snip0 rr show ?thesis
    by (simp add: engine0_def snip0_def MaxRetryCount_def)
qed

subsection \<open>The effects of a round\<close>

lemma slept_append [simp]: "slept (xs @ ys) = slept xs + slept ys"
  by (induction xs rule: slept.induct) simp_all

lemma slept_call_event [simp]: "slept (call_event h snip # es) = slept es"
  by (simp add: call_event_def)

lemma slept_query_log [simp]: "slept (query_log v snip err) = 0"
  by (simp add: query_log_def split: option.splits)

lemma is_call_call_event [simp]: "is_call (call_event h snip)"
  by (simp add: call_event_def)

lemma calls_empty_iff: "calls tr = [] \<longleftrightarrow> (\<forall>e\<in>set tr. \<not> is_call e)"
  by (simp add: calls_def filter_empty_conv)

lemma after_last_call_append_calls:
  "calls ys \<noteq> [] \<Longrightarrow> after_last_call (xs @ ys) = after_last_call ys"
proof -
  assume "calls ys \<noteq> []"
  then obtain e where "e \<in> set (rev ys)" "\<not> \<not> is_call e"
    by (auto simp: calls_empty_iff)
  then have "takeWhile (\<lambda>e. \<not> is_call e) (rev ys @ rev xs) = takeWhile (\<lambda>e. \<not> is_call e) (rev ys)"
    by (rule takeWhile_append1)
  then show ?thesis
    by (simp add: after_last_call_def)
qed

lemma after_last_call_append_no_calls:
  "calls ys = [] \<Longrightarrow> after_last_call (xs @ ys) = after_last_call xs @ ys"
proof -
  assume "calls ys = []"
  then have "\<And>e. e \<in> set (rev ys) \<Longrightarrow> \<not> is_call e"
    by (simp add: calls_empty_iff)
  then have "takeWhile (\<lambda>e. \<not> is_call e) (rev ys @ rev xs)
      = rev ys @ takeWhile (\<lambda>e. \<not> is_call e) (rev xs)"
    by (rule takeWhile_append2)
  then show ?thesis
    by (simp add: after_last_call_def)
qed

lemma after_last_call_call: "is_call e \<Longrightarrow> calls es = [] \<Longrightarrow> after_last_call (e # es) = es"
  using after_last_call_append_no_calls [of es "[e]"]
  by (simp add: after_last_call_def)

lemma before_first_call_call [simp]: "is_call e \<Longrightarrow> before_first_call (e # es) = []"
  by (simp add: before_first_call_def)

lemma before_first_call_append:
  "calls xs = [] \<Longrightarrow> before_first_call (xs @ ys) = xs @ before_first_call ys"
  by (simp add: before_first_call_def calls_empty_iff takeWhile_append2)

lemma succeeded_simps [simp]:
  "succeeded (Inl a) = False"
  "succeeded (Inr (ex, q)) = (ex = Goto_PROCESS_READINGS)"
  by (simp_all add: succeeded_def)

lemma retry_loop_shape:
  "\<exists>T. trace (state_of (retry_loop cl snip r q)) = trace q @ T
     \<and> controls T = (if succeeded (retry_loop cl snip r q) then [ok_snip snip] else [])
     \<and> (\<forall>ex q'. retry_loop cl snip r q = Inr (ex, q') \<longrightarrow> r < MaxRetryCount \<longrightarrow>
          (\<exists>T'. T = call_event ((handler q)\<lparr>SlaveId := DeviceId snip\<rparr>) snip # T')
          \<and> slept (after_last_call T) = (case ex of Goto_PROCESS_READINGS \<Rightarrow> 0 | Loop_done \<Rightarrow> 100))"
proof (induction "MaxRetryCount - r" arbitrary: r q)
  case 0
  then have "\<not> r < MaxRetryCount"
    by simp
  then have "retry_loop cl snip r q = Inr (Loop_done, q)"
    by (rule retry_loop_done)
  with \<open>\<not> r < MaxRetryCount\<close> show ?case
    by simp
next
  case (Suc n)
  then have lt: "r < MaxRetryCount" and n: "n = MaxRetryCount - Suc r"
    by simp_all
  let ?h = "(handler q)\<lparr>SlaveId := DeviceId snip\<rparr>"
  let ?res = "fst (client_read cl ?h snip (client q))"
  show ?case
  proof (cases "valid_snip snip")
    case False
    then show ?thesis
      using lt by (simp add: retry_loop_fatal)
  next
    case True
    obtain b err where res: "?res = (b, err)"
      by (cases ?res)
    show ?thesis
    proof (cases err)
      case None
      show ?thesis
      proof (cases "Transform snip b")
        case None
        with \<open>err = None\<close> res have "retry_loop cl snip r q = Inl (Panic, after_query cl snip q)"
          using True lt by (simp add: retry_loop_panic)
        then show ?thesis
          using res \<open>err = None\<close> by (simp add: query_log_def)
      next
        case (Some v)
        with \<open>err = None\<close> res
        have "retry_loop cl snip r q = Inr (Goto_PROCESS_READINGS, after_success cl snip v q)"
          using True lt by (simp add: retry_loop_ok)
        then show ?thesis
          using res \<open>err = None\<close>
          by (simp add: query_log_def after_last_call_call)
      qed
    next
      case (Some e)
      let ?q4 = "after_failure cl snip r q"
      let ?X = "call_event ?h snip # query_log (verbose q) snip (Some e)
                  @ [Log (Failed_to_respond (DeviceId snip) (r + 1) MaxRetryCount), Sleep 100]"
      from Some res have step: "retry_loop cl snip r q = retry_loop cl snip (Suc r) ?q4"
        using True lt by (simp add: retry_loop_fail)
      have tq4: "trace ?q4 = trace q @ ?X"
        using res Some by simp
      from Suc.hyps(1) [OF n, of ?q4]
      obtain T where T0: "trace (state_of (retry_loop cl snip (Suc r) ?q4)) = trace ?q4 @ T
        \<and> controls T = (if succeeded (retry_loop cl snip (Suc r) ?q4) then [ok_snip snip] else [])
        \<and> (\<forall>ex q'. retry_loop cl snip (Suc r) ?q4 = Inr (ex, q') \<longrightarrow> Suc r < MaxRetryCount \<longrightarrow>
          (\<exists>T'. T = call_event ((handler ?q4)\<lparr>SlaveId := DeviceId snip\<rparr>) snip # T')
          \<and> slept (after_last_call T) = (case ex of Goto_PROCESS_READINGS \<Rightarrow> 0 | Loop_done \<Rightarrow> 100))"
        ..
      note T = T0 [THEN conjunct1] T0 [THEN conjunct2, THEN conjunct1]
        T0 [THEN conjunct2, THEN conjunct2]
      have 1: "trace (state_of (retry_loop cl snip r q)) = trace q @ (?X @ T)"
        using step T(1) tq4 by simp
      have 2: "controls (?X @ T) = (if succeeded (retry_loop cl snip r q) then [ok_snip snip] else [])"
        using step T(2) by simp
      have 3: "(\<exists>T'. ?X @ T = call_event ?h snip # T')
          \<and> slept (after_last_call (?X @ T)) = (case ex of Goto_PROCESS_READINGS \<Rightarrow> 0 | Loop_done \<Rightarrow> 100)"
        if R: "retry_loop cl snip r q = Inr (ex, q')" for ex q'
      proof (cases "Suc r < MaxRetryCount")
        case True
        with T(3) R step obtain T' where T': "T = call_event ((handler ?q4)\<lparr>SlaveId := DeviceId snip\<rparr>) snip # T'"
          and sl: "slept (after_last_call T) = (case ex of Goto_PROCESS_READINGS \<Rightarrow> 0 | Loop_done \<Rightarrow> 100)"
          by auto
        from T' have "calls T \<noteq> []"
          by simp
        then have "after_last_call (?X @ T) = after_last_call T"
          by (rule after_last_call_append_calls)
        with sl show ?thesis
          by simp
      next
        case False
        then have d: "retry_loop cl snip (Suc r) ?q4 = Inr (Loop_done, ?q4)"
          by (rule retry_loop_done)
        with R step have ex: "ex = Loop_done"
          by simp
        from d T(1) have "T = []"
          by simp
        moreover have "after_last_call ?X = query_log (verbose q) snip (Some e)
                  @ [Log (Failed_to_respond (DeviceId snip) (r + 1) MaxRetryCount), Sleep 100]"
          by (rule after_last_call_call) simp_all
        ultimately show ?thesis
          using ex by simp
      qed
      from 1 2 3 show ?thesis
        by blast
    qed
  qed
qed

lemma process_snip_shape:
  "\<exists>T. trace (state_of (process_snip cl p snip q))
         = trace q @ (if p \<noteq> DeviceId snip then [Sleep 100] else []) @ T
     \<and> (case process_snip cl p snip q of
          Inl a \<Rightarrow> controls T = []
        | Inr (u, q') \<Rightarrow>
            (controls T = [ok_snip snip] \<or> controls T = [err_snip snip])
            \<and> (\<exists>T'. T = call_event ((handler q)\<lparr>SlaveId := DeviceId snip\<rparr>) snip # T')
            \<and> slept (after_last_call T) = (if controls T = [ok_snip snip] then 0 else 100))"
proof -
  let ?q1 = "settle p snip q"
  let ?R = "retry_loop cl snip 0 ?q1"
  let ?h = "(handler q)\<lparr>SlaveId := DeviceId snip\<rparr>"
  from retry_loop_shape [of cl snip 0 ?q1]
  obtain T where T0: "trace (state_of ?R) = trace ?q1 @ T
     \<and> controls T = (if succeeded ?R then [ok_snip snip] else [])
     \<and> (\<forall>ex q'. ?R = Inr (ex, q') \<longrightarrow> 0 < MaxRetryCount \<longrightarrow>
          (\<exists>T'. T = call_event ((handler ?q1)\<lparr>SlaveId := DeviceId snip\<rparr>) snip # T')
          \<and> slept (after_last_call T) = (case ex of Goto_PROCESS_READINGS \<Rightarrow> 0 | Loop_done \<Rightarrow> 100))"
    ..
  note T = T0 [THEN conjunct1] T0 [THEN conjunct2, THEN conjunct1]
    T0 [THEN conjunct2, THEN conjunct2]
  show ?thesis
  proof (cases ?R)
    case (Inl a)
    then have "process_snip cl p snip q = Inl a"
      by (simp add: process_snip_alt)
    with Inl T(1,2) show ?thesis
      by (cases a) simp
  next
    case (Inr x)
    then obtain ex q2 where R: "?R = Inr (ex, q2)"
      by (cases x) simp
    with T(3) obtain T' where T': "T = call_event ?h snip # T'"
      and sl: "slept (after_last_call T) = (case ex of Goto_PROCESS_READINGS \<Rightarrow> 0 | Loop_done \<Rightarrow> 100)"
      by auto
    show ?thesis
    proof (cases ex)
      case Goto_PROCESS_READINGS
      with R have "process_snip cl p snip q = Inr ((), q2)"
        by (simp add: process_snip_alt)
      with R T(1,2) T' sl Goto_PROCESS_READINGS show ?thesis
        by simp
    next
      case Loop_done
      with R have P: "process_snip cl p snip q = Inr ((), emit (Send_controlStream (err_snip snip)) q2)"
        by (simp add: process_snip_alt)
      let ?T = "T @ [Send_controlStream (err_snip snip)]"
      have 1: "trace (state_of (process_snip cl p snip q))
         = trace q @ (if p \<noteq> DeviceId snip then [Sleep 100] else []) @ ?T"
        using P R T(1) by simp
      have 2: "controls ?T = [err_snip snip]"
        using R T(2) Loop_done by simp
      have 3: "?T = call_event ?h snip # (T' @ [Send_controlStream (err_snip snip)])"
        using T' by simp
      have "after_last_call ?T = after_last_call T @ [Send_controlStream (err_snip snip)]"
        by (rule after_last_call_append_no_calls) simp
      with sl Loop_done have 4: "slept (after_last_call ?T) = 100"
        by simp
      from 1 2 3 4 P show ?thesis
        by (intro exI [of _ ?T]) simp
    qed
  qed
qed

lemma Transform_loop_trace:
  "\<exists>T. trace (state_of (Transform_loop cl p inputStream q)) = trace q @ T"
proof (induction inputStream arbitrary: p q)
  case Nil
  show ?case by simp
next
  case (Cons snip inputStream)
  from process_snip_shape [of cl p snip q]
  obtain T1 where T1: "trace (state_of (process_snip cl p snip q)) = trace q @ T1"
    by auto
  show ?case
  proof (cases "process_snip cl p snip q")
    case (Inl a)
    with T1 show ?thesis by simp
  next
    case (Inr x)
    then obtain q1 where P: "process_snip cl p snip q = Inr ((), q1)"
      by (cases x) simp
    from Cons.IH [of "DeviceId snip" q1] obtain T2
      where "trace (state_of (Transform_loop cl (DeviceId snip) inputStream q1)) = trace q1 @ T2"
      ..
    with P T1 show ?thesis by simp
  qed
qed

lemma Transform_loop_append:
  "Transform_loop cl p (xs @ ys) q =
     (case Transform_loop cl p xs q of
        Inl a \<Rightarrow> Inl a
      | Inr (u, q1) \<Rightarrow> Transform_loop cl (if xs = [] then p else DeviceId (last xs)) ys q1)"
  by (induction xs arbitrary: p q) (auto split: sum.splits)

lemma retry_loop_returns:
  assumes "valid_snip snip" and "decodes cl snip"
  shows "\<exists>ex q'. retry_loop cl snip r q = Inr (ex, q')"
proof (induction "MaxRetryCount - r" arbitrary: r q)
  case 0
  then have "\<not> r < MaxRetryCount"
    by simp
  then show ?case
    by (simp add: retry_loop_done)
next
  case (Suc n)
  then have lt: "r < MaxRetryCount" and n: "n = MaxRetryCount - Suc r"
    by simp_all
  let ?h = "(handler q)\<lparr>SlaveId := DeviceId snip\<rparr>"
  obtain b err where res: "fst (client_read cl ?h snip (client q)) = (b, err)"
    by (cases "fst (client_read cl ?h snip (client q))")
  show ?case
  proof (cases err)
    case None
    with res assms(2) have "Transform snip b \<noteq> None"
      unfolding decodes_def by blast
    then obtain v where "Transform snip b = Some v"
      by auto
    with None res show ?thesis
      using assms(1) lt by (simp add: retry_loop_ok)
  next
    case (Some e)
    with res have "retry_loop cl snip r q = retry_loop cl snip (Suc r) (after_failure cl snip r q)"
      using assms(1) lt by (simp add: retry_loop_fail)
    with Suc.hyps(1) [OF n] show ?thesis
      by simp
  qed
qed

lemma process_snip_returns:
  assumes "valid_snip snip" and "decodes cl snip"
  shows "\<exists>q'. process_snip cl p snip q = Inr ((), q')"
proof -
  from retry_loop_returns [OF assms] obtain ex q2
    where "retry_loop cl snip 0 (settle p snip q) = Inr (ex, q2)"
    by blast
  then show ?thesis
    by (cases ex) (simp_all add: process_snip_alt)
qed

lemma Transform_loop_returns:
  assumes "\<forall>snip\<in>set inputStream. valid_snip snip \<and> decodes cl snip"
  shows "\<exists>q'. Transform_loop cl p inputStream q = Inr ((), q')"
  using assms
proof (induction inputStream arbitrary: p q)
  case Nil
  show ?case by simp
next
  case (Cons snip inputStream)
  then have "valid_snip snip" "decodes cl snip"
    by simp_all
  then obtain q1 where "process_snip cl p snip q = Inr ((), q1)"
    using process_snip_returns by blast
  moreover from Cons have "\<exists>q'. Transform_loop cl (DeviceId snip) inputStream q1 = Inr ((), q')"
    by simp
  ultimately show ?case
    by simp
qed

lemma Transform_loop_controls:
  "\<exists>cs. controls (trace (state_of (Transform_loop cl p inputStream q))) = controls (trace q) @ cs
     \<and> list_all2 (\<lambda>c snip. c = ok_snip snip \<or> c = err_snip snip) cs (take (length cs) inputStream)
     \<and> (\<forall>q'. Transform_loop cl p inputStream q = Inr ((), q') \<longrightarrow> length cs = length inputStream)"
proof (induction inputStream arbitrary: p q)
  case Nil
  show ?case by simp
next
  case (Cons snip inputStream)
  let ?pre = "if p \<noteq> DeviceId snip then [Sleep 100] else []"
  from process_snip_shape [of cl p snip q]
  obtain T where T0: "trace (state_of (process_snip cl p snip q)) = trace q @ ?pre @ T
     \<and> (case process_snip cl p snip q of
          Inl a \<Rightarrow> controls T = []
        | Inr (u, q') \<Rightarrow>
            (controls T = [ok_snip snip] \<or> controls T = [err_snip snip])
            \<and> (\<exists>T'. T = call_event ((handler q)\<lparr>SlaveId := DeviceId snip\<rparr>) snip # T')
            \<and> slept (after_last_call T) = (if controls T = [ok_snip snip] then 0 else 100))"
    ..
  note T = T0 [THEN conjunct1] T0 [THEN conjunct2]
  have pre: "controls ?pre = []"
    by simp
  show ?case
  proof (cases "process_snip cl p snip q")
    case (Inl a)
    with T have "controls (trace (state_of (Transform_loop cl p (snip # inputStream) q)))
        = controls (trace q) @ []"
      by (simp add: pre)
    with Inl show ?thesis
      by (intro exI [of _ "[]"]) simp
  next
    case (Inr x)
    then obtain q1 where P: "process_snip cl p snip q = Inr ((), q1)"
      by (cases x) simp
    with T(2) obtain c where c: "controls T = [c]" "c = ok_snip snip \<or> c = err_snip snip"
      by auto
    from Cons.IH [of "DeviceId snip" q1]
    obtain cs where cs0: "controls (trace (state_of (Transform_loop cl (DeviceId snip) inputStream q1)))
         = controls (trace q1) @ cs
       \<and> list_all2 (\<lambda>c snip. c = ok_snip snip \<or> c = err_snip snip) cs (take (length cs) inputStream)
       \<and> (\<forall>q'. Transform_loop cl (DeviceId snip) inputStream q1 = Inr ((), q')
             \<longrightarrow> length cs = length inputStream)"
      ..
    note cs = cs0 [THEN conjunct1] cs0 [THEN conjunct2, THEN conjunct1]
      cs0 [THEN conjunct2, THEN conjunct2]
    have 1: "controls (trace (state_of (Transform_loop cl p (snip # inputStream) q)))
        = controls (trace q) @ (c # cs)"
      using P T(1) c(1) cs(1) by (simp add: pre)
    have 2: "list_all2 (\<lambda>c snip. c = ok_snip snip \<or> c = err_snip snip) (c # cs)
        (take (length (c # cs)) (snip # inputStream))"
      using c(2) cs(2) by simp
    have 3: "\<forall>q'. Transform_loop cl p (snip # inputStream) q = Inr ((), q')
        \<longrightarrow> length (c # cs) = length (snip # inputStream)"
      using P cs(3) by simp
    from 1 2 3 show ?thesis
      by blast
  qed
qed

subsection \<open>The first snip\<close>

text \<open>
  C10.  \<open>Transform\<close> starts with \<open>previousDeviceId = 0\<close>, which no device address from
  1 to 247 equals: for a first snip with such an address the first effect of the loop is
  the pause of 100 ms, before any call of the client, whatever happens afterwards.
\<close>

theorem first_snip_settles:
  assumes "1 \<le> DeviceId snip" and "DeviceId snip \<le> 247"
  shows "\<exists>T. trace (state_of (ModbusEngine_Transform cl (snip # inputStream) q))
           = trace q @ Sleep 100 # T"
proof -
  from assms(1) have ne: "0 \<noteq> DeviceId snip"
    by auto
  from process_snip_shape [of cl 0 snip q] ne
  obtain T1 where T1: "trace (state_of (process_snip cl 0 snip q)) = trace q @ Sleep 100 # T1"
    by auto
  show ?thesis
  proof (cases "process_snip cl 0 snip q")
    case (Inl a)
    with T1 show ?thesis by (simp add: ModbusEngine_Transform_def)
  next
    case (Inr x)
    then obtain q1 where P: "process_snip cl 0 snip q = Inr ((), q1)"
      by (cases x) simp
    from Transform_loop_trace [of cl "DeviceId snip" inputStream q1] obtain T2
      where "trace (state_of (Transform_loop cl (DeviceId snip) inputStream q1)) = trace q1 @ T2"
      ..
    with P T1 show ?thesis by (simp add: ModbusEngine_Transform_def)
  qed
qed

theorem first_snip_settles_witness:
  "1 \<le> DeviceId snip0 \<and> DeviceId snip0 \<le> 247
   \<and> (\<exists>T. trace (state_of (ModbusEngine_Transform (sim_client (\<lambda>h c. True)) [snip0] engine0))
            = Sleep 100 # T)"
  using first_snip_settles [of snip0 "sim_client (\<lambda>h c. True)" "[]" engine0]
  by (simp add: snip0_def engine0_def)

subsection \<open>Control snips\<close>

text \<open>
  C4.  The control snips that the loop sends while it runs on the snips of the input
  channel are, in order, one for each snip it has dealt with: the \<open>i\<close>-th control snip
  is the OK or the ERROR snip of the \<open>i\<close>-th snip received.  When the run does not
  abort there are exactly as many control snips as snips received, and it does not abort
  when every snip is valid and its transform decodes what the client reads.
\<close>

theorem control_snips_in_order:
  "\<exists>cs. controls (trace (state_of (ModbusEngine_Transform cl inputStream q)))
          = controls (trace q) @ cs
     \<and> list_all2 (\<lambda>c snip. c = ok_snip snip \<or> c = err_snip snip) cs (take (length cs) inputStream)
     \<and> (\<forall>q'. ModbusEngine_Transform cl inputStream q = Inr ((), q')
           \<longrightarrow> length cs = length inputStream)
     \<and> ((\<forall>snip\<in>set inputStream. valid_snip snip \<and> decodes cl snip)
           \<longrightarrow> (\<exists>q'. ModbusEngine_Transform cl inputStream q = Inr ((), q')))"
  unfolding ModbusEngine_Transform_def
  using Transform_loop_controls [of cl 0 inputStream q] Transform_loop_returns [of inputStream cl 0 q]
  by blast

theorem control_snips_in_order_witness:
  "valid_snip snip0 \<and> valid_snip (snip0\<lparr>QuerySnip.DeviceId := 42\<rparr>)
   \<and> decodes (sim_client (\<lambda>h c. SlaveId h = 5)) snip0
   \<and> decodes (sim_client (\<lambda>h c. SlaveId h = 5)) (snip0\<lparr>QuerySnip.DeviceId := 42\<rparr>)
   \<and> (\<exists>cs q'. ModbusEngine_Transform (sim_client (\<lambda>h c. SlaveId h = 5))
                  [snip0, snip0\<lparr>QuerySnip.DeviceId := 42\<rparr>] engine0 = Inr ((), q')
         \<and> controls (trace q') = cs \<and> length cs = 2
         \<and> list_all2 (\<lambda>c snip. c = ok_snip snip \<or> c = err_snip snip) cs
              [snip0, snip0\<lparr>QuerySnip.DeviceId := 42\<rparr>])"
proof -
  let ?cl = "sim_client (\<lambda>h c. SlaveId h = 5)"
  let ?s2 = "snip0\<lparr>QuerySnip.DeviceId := 42\<rparr>"
  have v: "valid_snip snip0" "valid_snip ?s2"
    by (simp_all add: valid_snip_def snip0_def ReadInputReg_def)
  have d: "decodes ?cl snip0" "decodes ?cl ?s2"
    by (rule sim_client_decodes, simp add: snip0_def)+
  from v d have all: "\<forall>snip\<in>set [snip0, ?s2]. valid_snip snip \<and> decodes ?cl snip"
    by simp
  from control_snips_in_order [of ?cl "[snip0, ?s2]" engine0]
  obtain cs where cs0: "controls (trace (state_of (ModbusEngine_Transform ?cl [snip0, ?s2] engine0)))
          = controls (trace engine0) @ cs
     \<and> list_all2 (\<lambda>c snip. c = ok_snip snip \<or> c = err_snip snip) cs (take (length cs) [snip0, ?s2])
     \<and> (\<forall>q'. ModbusEngine_Transform ?cl [snip0, ?s2] engine0 = Inr ((), q')
           \<longrightarrow> length cs = length [snip0, ?s2])
     \<and> ((\<forall>snip\<in>set [snip0, ?s2]. valid_snip snip \<and> decodes ?cl snip)
           \<longrightarrow> (\<exists>q'. ModbusEngine_Transform ?cl [snip0, ?s2] engine0 = Inr ((), q')))"
    ..
  from cs0 all obtain q' where q': "ModbusEngine_Transform ?cl [snip0, ?s2] engine0 = Inr ((), q')"
    by blast
  with cs0 have len: "length cs = 2"
    by simp
  from cs0 q' have ctl: "controls (trace q') = cs"
    by (simp add: engine0_def)
  from cs0 len have "list_all2 (\<lambda>c snip. c = ok_snip snip \<or> c = err_snip snip) cs [snip0, ?s2]"
    by simp
  with v d q' len ctl show ?thesis
    by blast
qed

subsection \<open>The pause between devices\<close>

lemma dead_read: "fst (client_read dead_bus h snip c) = ([], Some ''timeout'')"
  by (simp add: client_read_def dead_bus_def sim_client_def sim_read_def)

lemma dead_retry:
  "valid_snip snip \<Longrightarrow> r < MaxRetryCount \<Longrightarrow>
   retry_loop dead_bus snip r q = retry_loop dead_bus snip (Suc r) (after_failure dead_bus snip r q)"
  by (rule retry_loop_fail [OF _ _ dead_read])

lemma dead_retry_all:
  "valid_snip snip \<Longrightarrow>
   retry_loop dead_bus snip 0 q =
     Inr (Loop_done,
       after_failure dead_bus snip 4 (after_failure dead_bus snip 3 (after_failure dead_bus snip 2
         (after_failure dead_bus snip 1 (after_failure dead_bus snip 0 q)))))"
  by (simp add: dead_retry retry_loop_done MaxRetryCount_def eval_nat_numeral)

lemma dead_run1:
  "trace (state_of (ModbusEngine_Transform dead_bus [snip0] engine0)) = dead_T1"
  apply (simp add: ModbusEngine_Transform_def process_snip_alt dead_retry_all valid_snip0
      dead_read query_log_def)
  apply (simp add: snip0_def engine0_def call_event_def ReadInputReg_def MaxRetryCount_def
      err_snip_def decimal.simps dead_T1_def)
  done

lemma dead_run2:
  "trace (state_of (ModbusEngine_Transform dead_bus [snip0, snip0] engine0)) = dead_T1 @ dead_T2"
  apply (simp add: ModbusEngine_Transform_def process_snip_alt dead_retry_all valid_snip0
      dead_read query_log_def)
  apply (simp add: snip0_def engine0_def call_event_def ReadInputReg_def MaxRetryCount_def
      err_snip_def decimal.simps dead_T1_def dead_T2_def)
  done

text \<open>
  C3 as stated fails for two snips for the same device when the first runs out of
  retries: on a bus that never answers, the effects of the first round end with the
  100 ms slept after the fifth failed attempt, the second round starts with its first
  call, and 100 ms lie between the two calls although the device has not changed.
\<close>

theorem same_device_gap_counterexample:
  "trace (state_of (ModbusEngine_Transform dead_bus [snip0] engine0)) = dead_T1
   \<and> trace (state_of (ModbusEngine_Transform dead_bus [snip0, snip0] engine0)) = dead_T1 @ dead_T2
   \<and> after_last_call dead_T1
       = [Log (Failed_to_respond 5 5 5), Sleep 100,
          Send_controlStream
            \<lparr>Type = CONTROLSNIP_ERROR, Message = ''Device 5 did not respond.'',
             ControlSnip.DeviceId = 5\<rparr>]
   \<and> before_first_call dead_T2 = []
   \<and> gap dead_T1 dead_T2 = 100"
proof -
  have a: "after_last_call dead_T1
       = [Log (Failed_to_respond 5 5 5), Sleep 100,
          Send_controlStream
            \<lparr>Type = CONTROLSNIP_ERROR, Message = ''Device 5 did not respond.'',
             ControlSnip.DeviceId = 5\<rparr>]"
    by (simp add: after_last_call_def dead_T1_def)
  have b: "before_first_call dead_T2 = []"
    by (simp add: before_first_call_def dead_T2_def)
  have "gap dead_T1 dead_T2 = 100"
    by (simp add: gap_def a b)
  with a b dead_run1 dead_run2 show ?thesis
    by simp
qed

text \<open>
  C3, as the code has it.  Let the loop receive \<open>s1\<close> and then \<open>s2\<close>, in any state
  \<open>q\<close> and after any device \<open>p\<close> served before (by \<open>Transform_loop_append\<close> this is
  the situation anywhere in the input), and let \<open>T1\<close> and \<open>T2\<close> be the effects of
  the two rounds.  \<open>gap T1 T2\<close> is the time slept between the
  last call of the client for \<open>s1\<close> and the first call for \<open>s2\<close>.  When the device
  addresses differ, the loop sleeps 100 ms before the first call for \<open>s2\<close>, and the gap
  is at least 100 ms.  When they are equal, it does not sleep before the first call for
  \<open>s2\<close>; the gap is then 0 when \<open>s1\<close> succeeded and the 100 ms slept after the last
  failed attempt when \<open>s1\<close> ran out of retries.
\<close>

theorem settle_gap:
  assumes "Transform_loop cl p [s1, s2] q = Inr ((), q2)"
  shows "\<exists>q1 T1 T2.
      process_snip cl p s1 q = Inr ((), q1) \<and> process_snip cl (DeviceId s1) s2 q1 = Inr ((), q2)
      \<and> trace q1 = trace q @ T1 \<and> trace q2 = trace q1 @ T2
      \<and> calls T1 \<noteq> [] \<and> calls T2 \<noteq> []
      \<and> (DeviceId s1 \<noteq> DeviceId s2 \<longrightarrow>
            slept (before_first_call T2) = 100 \<and> 100 \<le> gap T1 T2)
      \<and> (DeviceId s1 = DeviceId s2 \<longrightarrow>
            slept (before_first_call T2) = 0
            \<and> gap T1 T2 = (if controls T1 = [ok_snip s1] then 0 else 100))"
proof -
  from assms obtain q1 where P1: "process_snip cl p s1 q = Inr ((), q1)"
    and P2: "process_snip cl (DeviceId s1) s2 q1 = Inr ((), q2)"
    by (auto split: sum.splits)
  let ?pre1 = "if p \<noteq> DeviceId s1 then [Sleep 100] else []"
  let ?pre2 = "if DeviceId s1 \<noteq> DeviceId s2 then [Sleep 100] else []"
  from process_snip_shape [of cl p s1 q] P1
  obtain R1 R1' where R1: "trace q1 = trace q @ ?pre1 @ R1"
    "controls R1 = [ok_snip s1] \<or> controls R1 = [err_snip s1]"
    "R1 = call_event ((handler q)\<lparr>SlaveId := DeviceId s1\<rparr>) s1 # R1'"
    "slept (after_last_call R1) = (if controls R1 = [ok_snip s1] then 0 else 100)"
    by auto
  from process_snip_shape [of cl "DeviceId s1" s2 q1] P2
  obtain R2 R2' where R2: "trace q2 = trace q1 @ ?pre2 @ R2"
    "R2 = call_event ((handler q1)\<lparr>SlaveId := DeviceId s2\<rparr>) s2 # R2'"
    by auto
  let ?T1 = "?pre1 @ R1" and ?T2 = "?pre2 @ R2"
  have c1: "calls R1 \<noteq> []" and c2: "calls R2 \<noteq> []"
    using R1(3) R2(2) by simp_all
  have a: "after_last_call ?T1 = after_last_call R1"
    using c1 by (rule after_last_call_append_calls)
  have "before_first_call ?T2 = ?pre2 @ before_first_call R2"
    by (rule before_first_call_append) simp
  then have b: "before_first_call ?T2 = ?pre2"
    using R2(2) by simp
  have ctl: "controls ?T1 = controls R1"
    by simp
  have 1: "calls ?T1 \<noteq> []" "calls ?T2 \<noteq> []"
    using c1 c2 by simp_all
  have 2: "DeviceId s1 \<noteq> DeviceId s2 \<longrightarrow>
            slept (before_first_call ?T2) = 100 \<and> 100 \<le> gap ?T1 ?T2"
    unfolding gap_def b by simp
  have 3: "DeviceId s1 = DeviceId s2 \<longrightarrow>
            slept (before_first_call ?T2) = 0
            \<and> gap ?T1 ?T2 = (if controls ?T1 = [ok_snip s1] then 0 else 100)"
    unfolding gap_def a b ctl using R1(4) by simp
  from P1 P2 R1(1) R2(1) 1 2 3 show ?thesis
    by blast
qed

theorem settle_gap_witness:
  "(\<exists>q2 q1 T1 T2.
      Transform_loop (sim_client (\<lambda>h c. True)) 0 [snip0, snip0\<lparr>QuerySnip.DeviceId := 42\<rparr>] engine0
        = Inr ((), q2)
      \<and> process_snip (sim_client (\<lambda>h c. True)) 0 snip0 engine0 = Inr ((), q1)
      \<and> trace q1 = T1 \<and> trace q2 = T1 @ T2
      \<and> QuerySnip.DeviceId snip0 \<noteq> QuerySnip.DeviceId (snip0\<lparr>QuerySnip.DeviceId := 42\<rparr>)
      \<and> slept (before_first_call T2) = 100 \<and> 100 \<le> gap T1 T2)
   \<and> (\<exists>q2 q1 T1 T2.
      Transform_loop (sim_client (\<lambda>h c. True)) 0 [snip0, snip0] engine0 = Inr ((), q2)
      \<and> process_snip (sim_client (\<lambda>h c. True)) 0 snip0 engine0 = Inr ((), q1)
      \<and> trace q1 = T1 \<and> trace q2 = T1 @ T2
      \<and> QuerySnip.DeviceId snip0 = QuerySnip.DeviceId snip0
      \<and> slept (before_first_call T2) = 0
      \<and> gap T1 T2 = (if controls T1 = [ok_snip snip0] then 0 else 100))"
proof -
  let ?cl = "sim_client (\<lambda>h c. True)"
  let ?s2 = "snip0\<lparr>QuerySnip.DeviceId := 42\<rparr>"
  have v: "valid_snip snip0" "valid_snip ?s2"
    by (simp_all add: valid_snip_def snip0_def ReadInputReg_def)
  have d: "decodes ?cl snip0" "decodes ?cl ?s2"
    by (rule sim_client_decodes, simp add: snip0_def)+
  have ne: "QuerySnip.DeviceId snip0 \<noteq> QuerySnip.DeviceId ?s2"
    by (simp add: snip0_def)
  from v d have "\<forall>snip\<in>set [snip0, ?s2]. valid_snip snip \<and> decodes ?cl snip"
    by simp
  from Transform_loop_returns [OF this, of 0 engine0]
  obtain qa where qa: "Transform_loop ?cl 0 [snip0, ?s2] engine0 = Inr ((), qa)"
    ..
  from v d have "\<forall>snip\<in>set [snip0, snip0]. valid_snip snip \<and> decodes ?cl snip"
    by simp
  from Transform_loop_returns [OF this, of 0 engine0]
  obtain qb where qb: "Transform_loop ?cl 0 [snip0, snip0] engine0 = Inr ((), qb)"
    ..
  have e0: "trace engine0 = []"
    by (simp add: engine0_def)
  from settle_gap [OF qa]
  obtain q1 T1 T2 where a: "process_snip ?cl 0 snip0 engine0 = Inr ((), q1)"
      "trace q1 = trace engine0 @ T1" "trace qa = trace q1 @ T2"
      "QuerySnip.DeviceId snip0 \<noteq> QuerySnip.DeviceId ?s2 \<longrightarrow>
            slept (before_first_call T2) = 100 \<and> 100 \<le> gap T1 T2"
    by blast
  from a ne e0 have a': "trace q1 = T1" "trace qa = T1 @ T2"
      "slept (before_first_call T2) = 100" "100 \<le> gap T1 T2"
    by simp_all
  have A: "\<exists>q2 q1 T1 T2.
      Transform_loop ?cl 0 [snip0, ?s2] engine0 = Inr ((), q2)
      \<and> process_snip ?cl 0 snip0 engine0 = Inr ((), q1)
      \<and> trace q1 = T1 \<and> trace q2 = T1 @ T2
      \<and> QuerySnip.DeviceId snip0 \<noteq> QuerySnip.DeviceId ?s2
      \<and> slept (before_first_call T2) = 100 \<and> 100 \<le> gap T1 T2"
    using qa a(1) a' ne by (intro exI [of _ qa] exI [of _ q1] exI [of _ T1] exI [of _ T2]) simp
  from settle_gap [OF qb]
  obtain q1' T1' T2' where b: "process_snip ?cl 0 snip0 engine0 = Inr ((), q1')"
      "trace q1' = trace engine0 @ T1'" "trace qb = trace q1' @ T2'"
      "QuerySnip.DeviceId snip0 = QuerySnip.DeviceId snip0 \<longrightarrow>
            slept (before_first_call T2') = 0
            \<and> gap T1' T2' = (if controls T1' = [ok_snip snip0] then 0 else 100)"
    by blast
  from b e0 have b': "trace q1' = T1'" "trace qb = T1' @ T2'"
      "slept (before_first_call T2') = 0"
      "gap T1' T2' = (if controls T1' = [ok_snip snip0] then 0 else 100)"
    by simp_all
  have B: "\<exists>q2 q1 T1 T2.
      Transform_loop ?cl 0 [snip0, snip0] engine0 = Inr ((), q2)
      \<and> process_snip ?cl 0 snip0 engine0 = Inr ((), q1)
      \<and> trace q1 = T1 \<and> trace q2 = T1 @ T2
      \<and> QuerySnip.DeviceId snip0 = QuerySnip.DeviceId snip0
      \<and> slept (before_first_call T2) = 0
      \<and> gap T1 T2 = (if controls T1 = [ok_snip snip0] then 0 else 100)"
    using qb b(1) b' by (intro exI [of _ qb] exI [of _ q1'] exI [of _ T1'] exI [of _ T2']) simp
  from A B show ?thesis
    by (rule conjI)
qed

section \<open>Properties of the bus scan\<close>

lemma report_lines_append [simp]: "report_lines (xs @ ys) = report_lines xs @ report_lines ys"
  by (induction xs rule: report_lines.induct) simp_all

lemma na_lines_append [simp]: "na_lines (xs @ ys) = na_lines xs @ na_lines ys"
  by (induction xs rule: na_lines.induct) simp_all

lemma call_handlers_append [simp]: "call_handlers (xs @ ys) = call_handlers xs @ call_handlers ys"
  by (induction xs rule: call_handlers.induct) simp_all

lemma call_event_lines [simp]:
  "report_lines (call_event h snip # es) = report_lines es"
  "na_lines (call_event h snip # es) = na_lines es"
  "call_handlers (call_event h snip # es) = h # call_handlers es"
  by (simp_all add: call_event_def)

lemma query_log_lines [simp]:
  "report_lines (query_log v snip err) = []"
  "na_lines (query_log v snip err) = []"
  "call_handlers (query_log v snip err) = []"
  by (simp_all add: query_log_def split: option.splits)

lemma handler_eq: "(h :: RTUClientHandler)\<lparr>SlaveId := x\<rparr> = \<lparr>SlaveId = x, Timeout = Timeout h\<rparr>"
  by (cases h) simp

lemma stateless_read:
  "stateless cl \<Longrightarrow> fst (client_read cl h snip c) = fst (client_read cl h snip c')"
  unfolding stateless_def client_read_def by (cases "FuncCode snip = ReadInputReg") simp_all

lemma probe_loop_found:
  assumes "valid_snip (Probe p d)"
    and "fst (client_read cl ((handler q)\<lparr>SlaveId := DeviceId (Probe p d)\<rparr>) (Probe p d) (client q))
           = (b, None)"
    and "Transform (Probe p d) b = Some v"
  shows "probe_loop cl (p # ps) d q =
     Inr (Some \<lparr>DeviceInfo.DeviceId = d, MeterType = GetMeterType p\<rparr>,
          log_Printf (Device_found d (GetMeterType p) (IEC61850 (Probe p d)) v)
            (after_query cl (Probe p d) q))"
  using assms by (simp add: query_valid' Let_def)

lemma probe_loop_panic:
  assumes "valid_snip (Probe p d)"
    and "fst (client_read cl ((handler q)\<lparr>SlaveId := DeviceId (Probe p d)\<rparr>) (Probe p d) (client q))
           = (b, None)"
    and "Transform (Probe p d) b = None"
  shows "probe_loop cl (p # ps) d q = Inl (Panic, after_query cl (Probe p d) q)"
  using assms by (simp add: query_valid' Let_def)

lemma probe_loop_next:
  assumes "valid_snip (Probe p d)"
    and "fst (client_read cl ((handler q)\<lparr>SlaveId := DeviceId (Probe p d)\<rparr>) (Probe p d) (client q))
           = (b, Some e)"
  shows "probe_loop cl (p # ps) d q = probe_loop cl ps d (after_query cl (Probe p d) q)"
  using assms by (simp add: query_valid' Let_def)

lemma probe_loop_fatal:
  assumes "\<not> valid_snip (Probe p d)"
  shows "probe_loop cl (p # ps) d q =
     Inl (Fatal, q\<lparr>status := (status q)\<lparr>ModbusRequests := ModbusRequests (status q) + 1\<rparr>,
                   handler := (handler q)\<lparr>SlaveId := DeviceId (Probe p d)\<rparr>,
                   trace := trace q @
                     [Log (if ReadLen (Probe p d) = 0 then Invalid_meter_operation (Probe p d)
                           else Unknown_function_code (FuncCode (Probe p d)))]\<rparr>)"
  using assms by (simp add: query_invalid Let_def)

lemma probe_loop_shape:
  "\<exists>T. trace (state_of (probe_loop cl ps d q)) = trace q @ T
     \<and> Timeout (handler (state_of (probe_loop cl ps d q))) = Timeout (handler q)
     \<and> (\<forall>h\<in>set (call_handlers T).
           Timeout h = Timeout (handler q) \<and> (\<exists>p\<in>set ps. SlaveId h = DeviceId (Probe p d)))
     \<and> report_lines T = [] \<and> na_lines T = []"
proof (induction ps arbitrary: q)
  case Nil
  show ?case by simp
next
  case (Cons p ps)
  let ?snip = "Probe p d"
  let ?h = "(handler q)\<lparr>SlaveId := DeviceId ?snip\<rparr>"
  show ?case
  proof (cases "valid_snip ?snip")
    case False
    then show ?thesis
      by (simp add: probe_loop_fatal del: probe_loop.simps)
  next
    case True
    obtain b err where res: "fst (client_read cl ?h ?snip (client q)) = (b, err)"
      by (cases "fst (client_read cl ?h ?snip (client q))")
    show ?thesis
    proof (cases err)
      case None
      show ?thesis
      proof (cases "Transform ?snip b")
        case None
        with \<open>err = None\<close> res True
        have "probe_loop cl (p # ps) d q = Inl (Panic, after_query cl ?snip q)"
          by (simp add: probe_loop_panic del: probe_loop.simps)
        then show ?thesis
          by (simp del: probe_loop.simps)
      next
        case (Some v)
        with \<open>err = None\<close> res True
        have "probe_loop cl (p # ps) d q =
          Inr (Some \<lparr>DeviceInfo.DeviceId = d, MeterType = GetMeterType p\<rparr>,
            log_Printf (Device_found d (GetMeterType p) (IEC61850 ?snip) v) (after_query cl ?snip q))"
          by (simp add: probe_loop_found del: probe_loop.simps)
        then show ?thesis
          by (simp del: probe_loop.simps)
      qed
    next
      case (Some e)
      let ?q1 = "after_query cl ?snip q"
      from Some res True have step: "probe_loop cl (p # ps) d q = probe_loop cl ps d ?q1"
        by (simp add: probe_loop_next del: probe_loop.simps)
      from Cons.IH [of ?q1]
      obtain T where T0: "trace (state_of (probe_loop cl ps d ?q1)) = trace ?q1 @ T
        \<and> Timeout (handler (state_of (probe_loop cl ps d ?q1))) = Timeout (handler ?q1)
        \<and> (\<forall>h\<in>set (call_handlers T).
              Timeout h = Timeout (handler ?q1) \<and> (\<exists>p\<in>set ps. SlaveId h = DeviceId (Probe p d)))
        \<and> report_lines T = [] \<and> na_lines T = []"
        ..
      let ?X = "call_event ?h ?snip # query_log (verbose q) ?snip (Some e)"
      have "trace (state_of (probe_loop cl (p # ps) d q)) = trace q @ (?X @ T)"
        using step T0 res Some by simp
      moreover have "Timeout (handler (state_of (probe_loop cl (p # ps) d q))) = Timeout (handler q)"
        using step T0 by simp
      moreover have "\<forall>h\<in>set (call_handlers (?X @ T)).
           Timeout h = Timeout (handler q) \<and> (\<exists>p'\<in>set (p # ps). SlaveId h = DeviceId (Probe p' d))"
        using T0 by auto
      moreover have "report_lines (?X @ T) = []" "na_lines (?X @ T) = []"
        using T0 by simp_all
      ultimately show ?thesis
        by blast
    qed
  qed
qed


lemma probe_loop_result:
  assumes "stateless cl"
    and "\<forall>p\<in>set ps. valid_snip (Probe p d) \<and> decodes cl (Probe p d)"
  shows "\<exists>q'. probe_loop cl ps d q
           = Inr (map_option (device_info d) (first_responder cl (Timeout (handler q)) c0 ps d), q')"
  using assms(2)
proof (induction ps arbitrary: q)
  case Nil
  show ?case by (simp add: first_responder_def)
next
  case (Cons p ps)
  let ?snip = "Probe p d"
  let ?h = "(handler q)\<lparr>SlaveId := DeviceId ?snip\<rparr>"
  let ?t = "Timeout (handler q)"
  from Cons.prems have v: "valid_snip ?snip" and dc: "decodes cl ?snip"
    and rest: "\<forall>p\<in>set ps. valid_snip (Probe p d) \<and> decodes cl (Probe p d)"
    by simp_all
  obtain b err where res: "fst (client_read cl ?h ?snip (client q)) = (b, err)"
    by (cases "fst (client_read cl ?h ?snip (client q))")
  have "fst (client_read cl \<lparr>SlaveId = DeviceId ?snip, Timeout = ?t\<rparr> ?snip c0)
      = fst (client_read cl ?h ?snip (client q))"
    using stateless_read [OF assms(1)] by (simp add: handler_eq)
  with res have ok: "probe_ok cl ?t c0 d p \<longleftrightarrow> err = None"
    by (simp add: probe_ok_def)
  show ?case
  proof (cases err)
    case None
    with res dc have "Transform ?snip b \<noteq> None"
      unfolding decodes_def by blast
    then obtain x where "Transform ?snip b = Some x"
      by auto
    with None res v ok show ?thesis
      by (simp add: probe_loop_found first_responder_def device_info_def del: probe_loop.simps)
  next
    case (Some e)
    let ?q1 = "after_query cl ?snip q"
    from Some res v have "probe_loop cl (p # ps) d q = probe_loop cl ps d ?q1"
      by (simp add: probe_loop_next del: probe_loop.simps)
    moreover from Cons.IH [OF rest, of ?q1]
    obtain q' where "probe_loop cl ps d ?q1
       = Inr (map_option (device_info d) (first_responder cl (Timeout (handler ?q1)) c0 ps d), q')"
      ..
    ultimately show ?thesis
      using ok Some by (simp add: first_responder_def del: probe_loop.simps)
  qed
qed

lemma unat_succ: "(d :: 8 word) \<le> 247 \<Longrightarrow> unat (d + 1) = unat d + 1"
proof -
  assume "d \<le> 247"
  then have "unat d \<le> 247"
    by (simp add: word_le_nat_alt)
  then show ?thesis
    by (simp add: unat_word_ariths)
qed

lemma upt_unat_step:
  "(d :: 8 word) \<le> 247 \<Longrightarrow> map of_nat [unat d..<248] = d # map of_nat [unat (d + 1)..<248]"
proof -
  assume le: "d \<le> 247"
  then have "unat d < 248"
    by (simp add: word_le_nat_alt)
  then have "[unat d..<248] = unat d # [Suc (unat d)..<248]"
    by (rule upt_conv_Cons)
  then show ?thesis
    using le by (simp add: unat_succ)
qed

lemma upt_unat_done: "\<not> (d :: 8 word) \<le> 247 \<Longrightarrow> map of_nat [unat d..<248] = ([] :: 8 word list)"
  by (simp add: word_le_nat_alt)

lemma le_succ: "(d :: 8 word) \<le> 247 \<Longrightarrow> d + 1 \<le> d' \<Longrightarrow> d \<le> d'"
  by (simp add: word_le_nat_alt unat_succ)

lemma scan_measure_0: "0 = 248 - unat (d :: 8 word) \<Longrightarrow> \<not> d \<le> 247"
  by (simp add: word_le_nat_alt)

lemma scan_measure_Suc:
  "Suc n = 248 - unat (d :: 8 word) \<Longrightarrow> d \<le> 247 \<and> n = 248 - unat (d + 1)"
proof -
  assume a: "Suc n = 248 - unat d"
  then have "unat d \<le> 247"
    by simp
  then have le: "d \<le> 247"
    by (simp add: word_le_nat_alt)
  with a show ?thesis
    by (simp add: unat_succ)
qed

lemma SCAN_step:
  "deviceId \<le> 247 \<Longrightarrow>
   SCAN cl producers deviceId deviceList q =
     (case probe_loop cl producers deviceId (time_Sleep 40 q) of
        Inl a \<Rightarrow> Inl a
      | Inr (Some dev, q2) \<Rightarrow> SCAN cl producers (deviceId + 1) (deviceList @ [dev]) q2
      | Inr (None, q2) \<Rightarrow>
          SCAN cl producers (deviceId + 1) deviceList (log_Printf (Device_na deviceId) q2))"
  by (subst SCAN.simps) (simp add: Let_def)

lemma SCAN_done:
  "\<not> deviceId \<le> 247 \<Longrightarrow> SCAN cl producers deviceId deviceList q = Inr (deviceList, q)"
  by (subst SCAN.simps) simp

lemma SCAN_shape:
  "\<exists>T. trace (state_of (SCAN cl ps d dl q)) = trace q @ T
     \<and> Timeout (handler (state_of (SCAN cl ps d dl q))) = Timeout (handler q)
     \<and> (\<forall>h\<in>set (call_handlers T).
           Timeout h = Timeout (handler q)
           \<and> (\<exists>p\<in>set ps. \<exists>d'. d \<le> d' \<and> d' \<le> 247 \<and> SlaveId h = DeviceId (Probe p d')))
     \<and> report_lines T = []"
proof (induction "248 - unat d" arbitrary: d dl q)
  case 0
  then have "\<not> d \<le> 247"
    by (rule scan_measure_0)
  then show ?case
    by (simp add: SCAN_done)
next
  case (Suc n)
  from scan_measure_Suc [OF Suc.hyps(2)] have le: "d \<le> 247" and n: "n = 248 - unat (d + 1)"
    by simp_all
  let ?q1 = "time_Sleep 40 q"
  let ?P = "probe_loop cl ps d ?q1"
  from probe_loop_shape [of cl ps d ?q1]
  obtain Tp where Tp0: "trace (state_of ?P) = trace ?q1 @ Tp
     \<and> Timeout (handler (state_of ?P)) = Timeout (handler ?q1)
     \<and> (\<forall>h\<in>set (call_handlers Tp).
           Timeout h = Timeout (handler ?q1) \<and> (\<exists>p\<in>set ps. SlaveId h = DeviceId (Probe p d)))
     \<and> report_lines Tp = [] \<and> na_lines Tp = []"
    ..
  then have Tp: "trace (state_of ?P) = trace q @ Sleep 40 # Tp"
    "Timeout (handler (state_of ?P)) = Timeout (handler q)"
    "report_lines Tp = []"
    by simp_all
  have Tph: "\<forall>h\<in>set (call_handlers Tp).
           Timeout h = Timeout (handler q)
           \<and> (\<exists>p\<in>set ps. \<exists>d'. d \<le> d' \<and> d' \<le> 247 \<and> SlaveId h = DeviceId (Probe p d'))"
  proof
    fix h
    assume "h \<in> set (call_handlers Tp)"
    with Tp0 have "Timeout h = Timeout (handler q)"
      and "\<exists>p\<in>set ps. SlaveId h = DeviceId (Probe p d)"
      by simp_all
    with le show "Timeout h = Timeout (handler q)
           \<and> (\<exists>p\<in>set ps. \<exists>d'. d \<le> d' \<and> d' \<le> 247 \<and> SlaveId h = DeviceId (Probe p d'))"
      by blast
  qed
  show ?case
  proof (cases ?P)
    case (Inl a)
    then have "SCAN cl ps d dl q = Inl a"
      using le by (simp add: SCAN_step)
    with Inl Tp Tph show ?thesis
      by (cases a) (intro exI [of _ "Sleep 40 # Tp"], simp)
  next
    case (Inr x)
    then obtain r q2 where P: "?P = Inr (r, q2)"
      by (cases x) simp
    define dl' q3 X where "dl' = (case r of None \<Rightarrow> dl | Some dev \<Rightarrow> dl @ [dev])"
      and "q3 = (case r of None \<Rightarrow> log_Printf (Device_na d) q2 | Some dev \<Rightarrow> q2)"
      and "X = (case r of None \<Rightarrow> [Log (Device_na d)] | Some dev \<Rightarrow> [])"
    have step: "SCAN cl ps d dl q = SCAN cl ps (d + 1) dl' q3"
      using le P by (simp add: SCAN_step dl'_def q3_def split: option.splits)
    have q3: "trace q3 = trace q @ Sleep 40 # Tp @ X" "Timeout (handler q3) = Timeout (handler q)"
      using P Tp by (simp_all add: q3_def X_def split: option.splits)
    have X: "report_lines X = []" "call_handlers X = []"
      by (simp_all add: X_def split: option.splits)
    from Suc.hyps(1) [OF n, of dl' q3]
    obtain T where T0: "trace (state_of (SCAN cl ps (d + 1) dl' q3)) = trace q3 @ T
       \<and> Timeout (handler (state_of (SCAN cl ps (d + 1) dl' q3))) = Timeout (handler q3)
       \<and> (\<forall>h\<in>set (call_handlers T).
           Timeout h = Timeout (handler q3)
           \<and> (\<exists>p\<in>set ps. \<exists>d'. d + 1 \<le> d' \<and> d' \<le> 247 \<and> SlaveId h = DeviceId (Probe p d')))
       \<and> report_lines T = []"
      ..
    from T0 le q3(2) have Th: "\<forall>h\<in>set (call_handlers T).
           Timeout h = Timeout (handler q)
           \<and> (\<exists>p\<in>set ps. \<exists>d'. d \<le> d' \<and> d' \<le> 247 \<and> SlaveId h = DeviceId (Probe p d'))"
      by (metis le_succ)
    let ?T = "Sleep 40 # Tp @ X @ T"
    have "trace (state_of (SCAN cl ps d dl q)) = trace q @ ?T"
      using step T0 q3(1) by simp
    moreover have "Timeout (handler (state_of (SCAN cl ps d dl q))) = Timeout (handler q)"
      using step T0 q3(2) by simp
    moreover have "\<forall>h\<in>set (call_handlers ?T).
           Timeout h = Timeout (handler q)
           \<and> (\<exists>p\<in>set ps. \<exists>d'. d \<le> d' \<and> d' \<le> 247 \<and> SlaveId h = DeviceId (Probe p d'))"
      using Tph Th X by auto
    moreover have "report_lines ?T = []"
      using Tp(3) X T0 by simp
    ultimately show ?thesis
      by blast
  qed
qed


lemma SCAN_result:
  assumes "stateless cl"
    and "\<forall>p\<in>set ps. \<forall>d. valid_snip (Probe p d) \<and> decodes cl (Probe p d)"
  shows "\<exists>q' T. SCAN cl ps d dl q
             = Inr (dl @ found_from cl (Timeout (handler q)) c0 ps (map of_nat [unat d..<248]), q')
     \<and> trace q' = trace q @ T
     \<and> na_lines T = absent_from cl (Timeout (handler q)) c0 ps (map of_nat [unat d..<248])"
proof (induction "248 - unat d" arbitrary: d dl q)
  case 0
  then have "\<not> d \<le> 247"
    by (rule scan_measure_0)
  then show ?case
    by (simp add: SCAN_done upt_unat_done found_from_def absent_from_def del: upt.simps)
next
  case (Suc n)
  from scan_measure_Suc [OF Suc.hyps(2)] have le: "d \<le> 247" and n: "n = 248 - unat (d + 1)"
    by simp_all
  let ?t = "Timeout (handler q)"
  let ?q1 = "time_Sleep 40 q"
  let ?rest = "map of_nat [unat (d + 1)..<248] :: 8 word list"
  have ds: "map of_nat [unat d..<248] = d # ?rest"
    using le by (rule upt_unat_step)
  from assms(2) have "\<forall>p\<in>set ps. valid_snip (Probe p d) \<and> decodes cl (Probe p d)"
    by simp
  from probe_loop_result [OF assms(1) this, of ?q1 c0]
  obtain q2 where P: "probe_loop cl ps d ?q1
           = Inr (map_option (device_info d) (first_responder cl ?t c0 ps d), q2)"
    by auto
  from probe_loop_shape [of cl ps d ?q1] P
  obtain Tp where Tp: "trace q2 = trace q @ Sleep 40 # Tp" "Timeout (handler q2) = ?t"
    "na_lines Tp = []"
    by auto
  show ?case
  proof (cases "first_responder cl ?t c0 ps d")
    case None
    let ?q3 = "log_Printf (Device_na d) q2"
    from None P le have step: "SCAN cl ps d dl q = SCAN cl ps (d + 1) dl ?q3"
      by (simp add: SCAN_step)
    from Suc.hyps(1) [OF n, of dl ?q3] Tp(2)
    obtain q' T where T: "SCAN cl ps (d + 1) dl ?q3 = Inr (dl @ found_from cl ?t c0 ps ?rest, q')"
      "trace q' = trace ?q3 @ T" "na_lines T = absent_from cl ?t c0 ps ?rest"
      by auto
    let ?T = "Sleep 40 # Tp @ Log (Device_na d) # T"
    have "SCAN cl ps d dl q = Inr (dl @ found_from cl ?t c0 ps (map of_nat [unat d..<248]), q')"
      using step T(1) None unfolding ds by (simp add: found_from_def)
    moreover have "trace q' = trace q @ ?T"
      using T(2) Tp(1) by simp
    moreover have "na_lines ?T = absent_from cl ?t c0 ps (map of_nat [unat d..<248])"
      using T(3) Tp(3) None unfolding ds by (simp add: absent_from_def)
    ultimately show ?thesis
      by blast
  next
    case (Some p)
    let ?dl = "dl @ [device_info d p]"
    from Some P le have step: "SCAN cl ps d dl q = SCAN cl ps (d + 1) ?dl q2"
      by (simp add: SCAN_step)
    from Suc.hyps(1) [OF n, of ?dl q2] Tp(2)
    obtain q' T where T: "SCAN cl ps (d + 1) ?dl q2 = Inr (?dl @ found_from cl ?t c0 ps ?rest, q')"
      "trace q' = trace q2 @ T" "na_lines T = absent_from cl ?t c0 ps ?rest"
      by auto
    let ?T = "Sleep 40 # Tp @ T"
    have "SCAN cl ps d dl q = Inr (dl @ found_from cl ?t c0 ps (map of_nat [unat d..<248]), q')"
      using step T(1) Some unfolding ds by (simp add: found_from_def)
    moreover have "trace q' = trace q @ ?T"
      using T(2) Tp(1) by simp
    moreover have "na_lines ?T = absent_from cl ?t c0 ps (map of_nat [unat d..<248])"
      using T(3) Tp(3) Some unfolding ds by (simp add: absent_from_def)
    ultimately show ?thesis
      by blast
  qed
qed

lemma Scan_alt:
  "Scan cl producers q =
     (case SCAN cl producers 1 [] (scan_start q) of
        Inl a \<Rightarrow> Inl a
      | Inr (deviceList, q3) \<Rightarrow> Inr ((), scan_finish (Timeout (handler q)) deviceList q3))"
  by (simp add: Scan_def scan_start_def scan_finish_def Let_def split: sum.splits prod.splits)

lemma scan_start_simps [simp]:
  "client (scan_start q) = client q"
  "Timeout (handler (scan_start q)) = 50"
  "trace (scan_start q) = trace q @ [Log Starting_bus_scan]"
  by (simp_all add: scan_start_def)

lemma foldl_log_trace:
  "trace (foldl (\<lambda>q x. log_Printf (f x) q) q0 xs) = trace q0 @ map (\<lambda>x. Log (f x)) xs"
  by (induction xs arbitrary: q0) simp_all

lemma foldl_log_handler:
  "handler (foldl (\<lambda>q x. log_Printf (f x) q) q0 xs) = handler q0"
  by (induction xs arbitrary: q0) simp_all

lemma report_lines_devices:
  "report_lines (map (\<lambda>x. Log (Slave_address (DeviceInfo.DeviceId x) (MeterType x))) dl)
     = map (\<lambda>x. (DeviceInfo.DeviceId x, MeterType x)) dl"
  by (induction dl) simp_all

lemma na_lines_devices:
  "na_lines (map (\<lambda>x. Log (Slave_address (DeviceInfo.DeviceId x) (MeterType x))) dl) = []"
  by (induction dl) simp_all

lemma call_handlers_devices:
  "call_handlers (map (\<lambda>x. Log (Slave_address (DeviceInfo.DeviceId x) (MeterType x))) dl) = []"
  by (induction dl) simp_all

lemma scan_finish_simps [simp]:
  "Timeout (handler (scan_finish t dl q3)) = t"
  "trace (scan_finish t dl q3) = trace q3 @ scan_tail dl"
  by (simp_all add: scan_finish_def scan_tail_def foldl_log_trace foldl_log_handler)

lemma scan_tail_simps [simp]:
  "report_lines (scan_tail dl) = map (\<lambda>x. (DeviceInfo.DeviceId x, MeterType x)) dl"
  "na_lines (scan_tail dl) = []"
  "call_handlers (scan_tail dl) = []"
  by (simp_all add: scan_tail_def report_lines_devices na_lines_devices call_handlers_devices)

lemma found_from_report:
  "map (\<lambda>x. (DeviceInfo.DeviceId x, MeterType x)) (found_from cl t c ps ds)
     = concat (map (\<lambda>d. case find (probe_ok cl t c d) ps of
                           None \<Rightarrow> [] | Some p \<Rightarrow> [(d, GetMeterType p)]) ds)"
  by (induction ds)
    (simp_all add: found_from_def first_responder_def device_info_def split: option.splits)

lemma two_device_bus_stateless: "stateless two_device_bus"
  by (simp add: stateless_def two_device_bus_def sim_client_def sim_read_def)

lemma producers_ok:
  "\<forall>p\<in>set [sdm_producer, janitza_producer]. \<forall>d.
     valid_snip (Probe p d) \<and> decodes two_device_bus (Probe p d) \<and> DeviceId (Probe p d) = d"
proof -
  have "valid_snip (Probe sdm_producer d) \<and> decodes two_device_bus (Probe sdm_producer d)
      \<and> DeviceId (Probe sdm_producer d) = d" for d
    unfolding two_device_bus_def
    by (intro conjI sim_client_decodes)
      (simp_all add: sdm_producer_def snip0_def valid_snip_def ReadInputReg_def)
  moreover have "valid_snip (Probe janitza_producer d)
      \<and> decodes two_device_bus (Probe janitza_producer d)
      \<and> DeviceId (Probe janitza_producer d) = d" for d
    unfolding two_device_bus_def
    by (intro conjI sim_client_decodes)
      (simp_all add: janitza_producer_def snip0_def valid_snip_def ReadHoldingReg_def)
  ultimately show ?thesis
    by simp
qed

lemma two_device_probe_ok:
  "probe_ok two_device_bus t c d sdm_producer \<longleftrightarrow> d = 5 \<or> d = 42"
  "probe_ok two_device_bus t c d janitza_producer \<longleftrightarrow> d = 5 \<or> d = 42"
  by (simp_all add: probe_ok_def client_read_def two_device_bus_def sim_client_def sim_read_def
      sdm_producer_def janitza_producer_def snip0_def)

lemma two_device_find:
  "find (probe_ok two_device_bus t c d) [sdm_producer, janitza_producer]
     = (if d = 5 \<or> d = 42 then Some sdm_producer else None)"
  by (simp add: two_device_probe_ok)

lemma two_device_report:
  "concat (map (\<lambda>d. if d = 5 \<or> d = 42 then [(d, ''SDM'')] else []) addresses)
     = [(5 :: 8 word, ''SDM''), (42, ''SDM'')]"
  by code_simp

lemma two_device_absent: "length (filter (\<lambda>d. d \<noteq> 5 \<and> d \<noteq> 42) addresses) = 245"
  by code_simp



text \<open>
  C5.  Let the answer of the bus to a read not depend on the reads before it, and let
  every producer's probe be a valid snip whose transform decodes what the client
  reads.  Then \<open>Scan\<close> returns; every call of the client during the scan is the probe
  of a producer for an address from 1 to 247, so that with producers whose probe for an
  address is a snip for that device no call is made for slave id 0 or for one above
  247; the report at the end lists, in ascending order, exactly the addresses from 1 to
  247 at which the probe of some producer succeeds, each with the meter type of the
  first producer of the list whose probe succeeds there; and the addresses logged as
  \<open>n/a\<close> are exactly the others.
\<close>

theorem scan_report:
  assumes "stateless cl"
    and "\<forall>p\<in>set producers. \<forall>d. valid_snip (Probe p d) \<and> decodes cl (Probe p d)"
  shows "\<exists>q' T. Scan cl producers q = Inr ((), q') \<and> trace q' = trace q @ T
     \<and> (\<forall>h\<in>set (call_handlers T).
           \<exists>p\<in>set producers. \<exists>d. 1 \<le> d \<and> d \<le> 247 \<and> SlaveId h = DeviceId (Probe p d))
     \<and> ((\<forall>p\<in>set producers. \<forall>d. DeviceId (Probe p d) = d)
           \<longrightarrow> (\<forall>h\<in>set (call_handlers T). 1 \<le> SlaveId h \<and> SlaveId h \<le> 247))
     \<and> report_lines T
         = concat (map (\<lambda>d. case find (probe_ok cl 50 (client q) d) producers of
                               None \<Rightarrow> [] | Some p \<Rightarrow> [(d, GetMeterType p)]) addresses)
     \<and> na_lines T = filter (\<lambda>d. find (probe_ok cl 50 (client q) d) producers = None) addresses"
proof -
  let ?q2 = "scan_start q"
  let ?S = "SCAN cl producers 1 [] ?q2"
  have a1: "map of_nat [unat (1 :: 8 word)..<248] = addresses"
    by (simp add: addresses_def)
  from SCAN_result [OF assms, of 1 "[]" ?q2 "client q"]
  obtain q3 T where R: "?S = Inr (found_from cl 50 (client q) producers addresses, q3)"
    "trace q3 = trace ?q2 @ T"
    "na_lines T = absent_from cl 50 (client q) producers addresses"
    unfolding a1 by auto
  from SCAN_shape [of cl producers 1 "[]" ?q2] R(1,2)
  have sh: "\<forall>h\<in>set (call_handlers T).
      (\<exists>p\<in>set producers. \<exists>d'. 1 \<le> d' \<and> d' \<le> 247 \<and> SlaveId h = DeviceId (Probe p d'))"
    "report_lines T = []"
    by auto
  have hs: "\<forall>h\<in>set (call_handlers T). 1 \<le> SlaveId h \<and> SlaveId h \<le> 247"
    if c: "\<forall>p\<in>set producers. \<forall>d. DeviceId (Probe p d) = d"
  proof
    fix h
    assume "h \<in> set (call_handlers T)"
    with sh(1) obtain p d' where "p \<in> set producers" "1 \<le> d'" "d' \<le> 247"
      "SlaveId h = DeviceId (Probe p d')"
      by blast
    with c show "1 \<le> SlaveId h \<and> SlaveId h \<le> 247"
      by simp
  qed
  let ?dl = "found_from cl 50 (client q) producers addresses"
  let ?T = "Log Starting_bus_scan # T @ scan_tail ?dl"
  have ch: "call_handlers ?T = call_handlers T"
    by simp
  have S: "Scan cl producers q = Inr ((), scan_finish (Timeout (handler q)) ?dl q3)"
    using R(1) by (simp add: Scan_alt)
  moreover have "trace (scan_finish (Timeout (handler q)) ?dl q3) = trace q @ ?T"
    using R(2) by simp
  moreover have "\<forall>h\<in>set (call_handlers ?T).
           \<exists>p\<in>set producers. \<exists>d. 1 \<le> d \<and> d \<le> 247 \<and> SlaveId h = DeviceId (Probe p d)"
    unfolding ch using sh(1) .
  moreover have "(\<forall>p\<in>set producers. \<forall>d. DeviceId (Probe p d) = d)
           \<longrightarrow> (\<forall>h\<in>set (call_handlers ?T). 1 \<le> SlaveId h \<and> SlaveId h \<le> 247)"
    unfolding ch using hs by blast
  moreover have "report_lines ?T
         = concat (map (\<lambda>d. case find (probe_ok cl 50 (client q) d) producers of
                               None \<Rightarrow> [] | Some p \<Rightarrow> [(d, GetMeterType p)]) addresses)"
    using sh(2) by (simp add: found_from_report)
  moreover have "na_lines ?T
         = filter (\<lambda>d. find (probe_ok cl 50 (client q) d) producers = None) addresses"
    using R(3) by (simp add: absent_from_def first_responder_def)
  ultimately show ?thesis
    by blast
qed

theorem scan_report_witness:
  "stateless two_device_bus
   \<and> (\<exists>q' T. Scan two_device_bus [sdm_producer, janitza_producer] engine0 = Inr ((), q')
         \<and> trace q' = T
         \<and> set (map SlaveId (call_handlers T)) \<subseteq> {1..247}
         \<and> report_lines T = [(5, ''SDM''), (42, ''SDM'')]
         \<and> na_lines T = filter (\<lambda>d. d \<noteq> 5 \<and> d \<noteq> 42) addresses
         \<and> length (na_lines T) = 245)"
proof -
  let ?ps = "[sdm_producer, janitza_producer]"
  from producers_ok
  have ok: "\<forall>p\<in>set ?ps. \<forall>d. valid_snip (Probe p d) \<and> decodes two_device_bus (Probe p d)"
    and dev: "\<forall>p\<in>set ?ps. \<forall>d. DeviceId (Probe p d) = d"
    by simp_all
  from scan_report [OF two_device_bus_stateless ok, of engine0]
  obtain q' T where s: "Scan two_device_bus ?ps engine0 = Inr ((), q')"
    "trace q' = trace engine0 @ T"
    "(\<forall>p\<in>set ?ps. \<forall>d. DeviceId (Probe p d) = d)
           \<longrightarrow> (\<forall>h\<in>set (call_handlers T). 1 \<le> SlaveId h \<and> SlaveId h \<le> 247)"
    "report_lines T
         = concat (map (\<lambda>d. case find (probe_ok two_device_bus 50 (client engine0) d) ?ps of
                               None \<Rightarrow> [] | Some p \<Rightarrow> [(d, GetMeterType p)]) addresses)"
    "na_lines T = filter (\<lambda>d. find (probe_ok two_device_bus 50 (client engine0) d) ?ps = None)
                    addresses"
    by blast
  have 1: "trace q' = T"
    using s(2) by (simp add: engine0_def)
  from s(3) dev have "\<forall>h\<in>set (call_handlers T). 1 \<le> SlaveId h \<and> SlaveId h \<le> 247"
    by blast
  then have 2: "set (map SlaveId (call_handlers T)) \<subseteq> {1..247}"
    by auto
  have "(\<lambda>d. case find (probe_ok two_device_bus 50 (client engine0) d) ?ps of
                None \<Rightarrow> [] | Some p \<Rightarrow> [(d, GetMeterType p)])
      = (\<lambda>d. if d = 5 \<or> d = 42 then [(d, ''SDM'')] else [])"
    unfolding two_device_find by (auto simp: sdm_producer_def)
  with s(4) have 3: "report_lines T = [(5, ''SDM''), (42, ''SDM'')]"
    by (simp only: two_device_report)
  have "(\<lambda>d. find (probe_ok two_device_bus 50 (client engine0) d) ?ps = None)
      = (\<lambda>d. d \<noteq> 5 \<and> d \<noteq> 42)"
    unfolding two_device_find by auto
  with s(5) have 4: "na_lines T = filter (\<lambda>d. d \<noteq> 5 \<and> d \<noteq> 42) addresses"
    by (simp only:)
  then have 5: "length (na_lines T) = 245"
    by (simp only: two_device_absent)
  from two_device_bus_stateless s(1) 1 2 3 4 5 show ?thesis
    by blast
qed

end
